theory Spec2Isabelle
  imports Main "HOL-Library.Char_ord" "HOL-Library.List_Lexorder" "HOL-Library.Product_Lexorder"
    "HOL-Library.Multiset" "HOL-Library.Sublist"
begin

unbundle bit_operations_syntax

section \<open>Errors\<close>

text \<open>
  A Go \<open>error\<close> value.  \<open>ErrNotBuilt\<close> is the package-level sentinel
  \<^verbatim>\<open>var ErrNotBuilt = errors.New("not built")\<close>; every other error (one made by
  \<^verbatim>\<open>fmt.Errorf\<close>, or one returned by the operating system or by a collaborator) is
  \<open>Err msg\<close>, carrying its message.
\<close>

datatype error = ErrNotBuilt | Err string

fun error_msg :: "error \<Rightarrow> string" where
  "error_msg ErrNotBuilt = ''not built''"
| "error_msg (Err m) = m"

section \<open>Semantic versions\<close>

text \<open>
  The version strings are read and compared by the go-semver library
  (\<^verbatim>\<open>github.com/coreos/go-semver/semver\<close>).  \<^verbatim>\<open>semver.New\<close> panics on a string
  that \<^verbatim>\<open>Version.Set\<close> refuses; \<open>None\<close> is the panic.  \<^verbatim>\<open>Set\<close> takes the
  build metadata off after the first \<open>+\<close>, then the pre-release off after the first
  \<open>-\<close>, wants exactly three dot-separated decimal numbers that fit an int64 in what
  is left, and wants the pre-release and the metadata, when not empty, to be
  dot-separated non-empty runs of letters, digits and hyphens.
\<close>

record semver =
  Major :: nat
  Minor :: nat
  Patch :: nat
  PreRelease :: string
  Metadata :: string

fun position_in :: "char \<Rightarrow> string \<Rightarrow> nat \<Rightarrow> nat option" where
  "position_in c [] i = None"
| "position_in c (d # ds) i = (if c = d then Some i else position_in c ds (Suc i))"

definition digit_val :: "char \<Rightarrow> nat option" where
  "digit_val c = position_in c ''0123456789'' 0"

fun parse_digits :: "nat \<Rightarrow> string \<Rightarrow> nat option" where
  "parse_digits acc [] = Some acc"
| "parse_digits acc (c # cs) =
    (case digit_val c of None \<Rightarrow> None | Some d \<Rightarrow> parse_digits (10 * acc + d) cs)"

text \<open>
  \<^verbatim>\<open>strconv.ParseInt(s, 10, 64)\<close> on a string without a sign (the signs have been
  split off before it is called).
\<close>

definition parse_int64 :: "string \<Rightarrow> nat option" where
  "parse_int64 s =
    (if s = [] then None
     else case parse_digits 0 s of
            None \<Rightarrow> None
          | Some n \<Rightarrow> if n < 2 ^ 63 then Some n else None)"

text \<open>\<^verbatim>\<open>strconv.Atoi\<close>: an optional sign, then decimal digits, within the int64 range.\<close>

definition Atoi :: "string \<Rightarrow> int option" where
  "Atoi s =
    (case s of
       [] \<Rightarrow> None
     | c # cs \<Rightarrow>
         if c = CHR ''-'' then
           (if cs = [] then None
            else case parse_digits 0 cs of
                   None \<Rightarrow> None
                 | Some n \<Rightarrow> if n \<le> 2 ^ 63 then Some (- int n) else None)
         else
           (let ds = (if c = CHR ''+'' then cs else s) in
            if ds = [] then None
            else case parse_digits 0 ds of
                   None \<Rightarrow> None
                 | Some n \<Rightarrow> if n < 2 ^ 63 then Some (int n) else None))"

fun split_at :: "char \<Rightarrow> string \<Rightarrow> string \<Rightarrow> string list" where
  "split_at sep cur [] = [rev cur]"
| "split_at sep cur (c # cs) =
    (if c = sep then rev cur # split_at sep [] cs else split_at sep (c # cur) cs)"

text \<open>
  \<^verbatim>\<open>splitOff\<close>: what is before the first delimiter and what is after it; the whole
  input and nothing when there is no delimiter.
\<close>

definition splitOff :: "string \<Rightarrow> char \<Rightarrow> string \<times> string" where
  "splitOff input delim =
    (if delim \<in> set input
     then (takeWhile (\<lambda>c. c \<noteq> delim) input, tl (dropWhile (\<lambda>c. c \<noteq> delim) input))
     else (input, []))"

definition identifier_char :: "char \<Rightarrow> bool" where
  "identifier_char c =
    (c \<in> set ''0123456789ABCDEFGHIJKLMNOPQRSTUVWXYZabcdefghijklmnopqrstuvwxyz-'')"

definition validateIdentifier :: "string \<Rightarrow> bool" where
  "validateIdentifier ident =
    (ident = [] \<or>
     list_all (\<lambda>part. part \<noteq> [] \<and> list_all identifier_char part)
       (split_at (CHR ''.'') [] ident))"

definition semver_New :: "string \<Rightarrow> semver option" where
  "semver_New version =
    (case splitOff version (CHR ''+'') of
       (version, metadata) \<Rightarrow>
    (case splitOff version (CHR ''-'') of
       (version, preRelease) \<Rightarrow>
    (case split_at (CHR ''.'') [] version of
       [a, b, c] \<Rightarrow>
         if \<not> validateIdentifier preRelease \<or> \<not> validateIdentifier metadata then None
         else
          (case (parse_int64 a, parse_int64 b, parse_int64 c) of
             (Some x, Some y, Some z) \<Rightarrow>
               Some \<lparr>Major = x, Minor = y, Patch = z, PreRelease = preRelease,
                     Metadata = metadata\<rparr>
           | _ \<Rightarrow> None)
     | _ \<Rightarrow> None)))"

text \<open>
  \<^verbatim>\<open>Version.Compare\<close>: the three numbers first, then the pre-releases, a version
  without one being the greater; the metadata plays no part.  The two slices of
  \<open>recursiveCompare\<close> always have three numbers each.
\<close>

fun recursiveCompare :: "nat list \<Rightarrow> nat list \<Rightarrow> int" where
  "recursiveCompare [] versionB = 0"
| "recursiveCompare (a # versionA) [] = 0"
| "recursiveCompare (a # versionA) (b # versionB) =
    (if a > b then 1 else if a < b then - 1 else recursiveCompare versionA versionB)"

fun recursivePreReleaseCompare :: "string list \<Rightarrow> string list \<Rightarrow> int" where
  "recursivePreReleaseCompare [] [] = 0"
| "recursivePreReleaseCompare [] (b # versionB) = - 1"
| "recursivePreReleaseCompare (a # versionA) [] = 1"
| "recursivePreReleaseCompare (a # versionA) (b # versionB) =
    (if Atoi a \<noteq> None \<and> Atoi b = None then - 1
     else if Atoi a = None \<and> Atoi b \<noteq> None then 1
     else if Atoi a \<noteq> None \<and> Atoi b \<noteq> None \<and> the (Atoi a) > the (Atoi b) then 1
     else if Atoi a \<noteq> None \<and> Atoi b \<noteq> None \<and> the (Atoi a) < the (Atoi b) then - 1
     else if a > b then 1
     else if a < b then - 1
     else recursivePreReleaseCompare versionA versionB)"

definition preReleaseCompare :: "semver \<Rightarrow> semver \<Rightarrow> int" where
  "preReleaseCompare versionA versionB =
    (if PreRelease versionA = [] \<and> PreRelease versionB \<noteq> [] then 1
     else if PreRelease versionB = [] \<and> PreRelease versionA \<noteq> [] then - 1
     else recursivePreReleaseCompare (split_at (CHR ''.'') [] (PreRelease versionA))
            (split_at (CHR ''.'') [] (PreRelease versionB)))"

definition Compare :: "semver \<Rightarrow> semver \<Rightarrow> int" where
  "Compare v versionB =
    (if recursiveCompare [Major v, Minor v, Patch v]
          [Major versionB, Minor versionB, Patch versionB] \<noteq> 0
     then recursiveCompare [Major v, Minor v, Patch v]
            [Major versionB, Minor versionB, Patch versionB]
     else preReleaseCompare v versionB)"

definition LessThan :: "semver \<Rightarrow> semver \<Rightarrow> bool" where
  "LessThan v versionB = (Compare v versionB < 0)"

text \<open>A version of three numbers with no pre-release and no metadata.\<close>

definition release :: "nat \<Rightarrow> nat \<Rightarrow> nat \<Rightarrow> semver" where
  "release x y z = \<lparr>Major = x, Minor = y, Patch = z, PreRelease = [], Metadata = []\<rparr>"

section \<open>The Function descriptor\<close>

text \<open>
  The fields of \<^verbatim>\<open>Function\<close> that the client and the migrations read or write.
  \<open>Created\<close> is a time in nanoseconds, \<open>0\<close> standing for Go's zero time
  (\<^verbatim>\<open>Created.IsZero()\<close>).  The nested configuration values (git source, volumes,
  environment, labels and so on) are opaque to the code modelled here and are kept as
  strings; \<open>BuilderImages\<close> is the Go map from builder name to image.
\<close>

record BuildSpec =
  Git :: string
  BuildType :: string
  BuilderImages :: "string \<rightharpoonup> string"
  Buildpacks :: "string list"
  BuildEnvs :: "string list"

record RunSpec =
  Namespace :: string
  Volumes :: "string list"
  Envs :: "string list"
  Annotations :: "string \<rightharpoonup> string"
  Options :: string
  Labels :: "string list"
  HealthEndpoints :: string

record Function =
  Root :: string
  Name :: string
  Runtime :: string
  Image :: string
  ImageDigest :: string
  Version :: string
  Created :: int
  Build :: BuildSpec
  Run :: RunSpec

definition DefaultVersion :: string where
  "DefaultVersion = ''0.0.0''"

section \<open>The migration engine\<close>

text \<open>
  The two later migrations re-read the descriptor file at the Function's root under an
  older schema (\<^verbatim>\<open>ioutil.ReadFile\<close> followed by \<^verbatim>\<open>yaml.Unmarshal\<close>).  What
  such a read gives, for a root, is a parameter of the model, as is the clock.
\<close>

record previous100 =
  p_BuildType :: string
  p_Git :: string
  p_BuilderImages :: "string \<rightharpoonup> string"
  p_Buildpacks :: "string list"
  p_Namespace :: string
  p_Volumes :: "string list"
  p_BuildEnvs :: "string list"
  p_Envs :: "string list"
  p_Annotations :: "string \<rightharpoonup> string"
  p_Options :: string
  p_Labels :: "string list"
  p_HealthEndpoints :: string

record menv =
  now :: int
  readPreviousBuilder :: "string \<Rightarrow> error + string"
  readPrevious100 :: "string \<Rightarrow> error + previous100"

datatype migrator = ToCreationStamp | ToBuilderImages | To100Structure

type_synonym migration = "string \<times> migrator"

definition migrateToCreationStamp :: "menv \<Rightarrow> Function \<Rightarrow> migration \<Rightarrow> Function \<times> error option" where
  "migrateToCreationStamp env f m =
    (let f = (if Created f = 0 then
                (if Name f \<noteq> [] \<and> Runtime f \<noteq> [] then f\<lparr>Created := now env\<rparr> else f)
              else f)
     in (f\<lparr>Version := fst m\<rparr>, None))"

definition defaultPackBuilderImage :: string where
  "defaultPackBuilderImage = ''gcr.io/paketo-buildpacks/builder:base''"

definition migrateToBuilderImages :: "menv \<Rightarrow> Function \<Rightarrow> migration \<Rightarrow> Function \<times> error option" where
  "migrateToBuilderImages env f1 m =
    (case readPreviousBuilder env (Root f1) of
       Inl err \<Rightarrow> (f1, Some err)
     | Inr f0Builder \<Rightarrow>
         (let f1 = (if f0Builder \<noteq> [] \<and> f0Builder \<noteq> defaultPackBuilderImage
                    then f1\<lparr>Build := (Build f1)\<lparr>BuilderImages :=
                                (BuilderImages (Build f1))(''pack'' \<mapsto> f0Builder)\<rparr>\<rparr>
                    else f1)
          in (f1\<lparr>Version := fst m\<rparr>, None)))"

definition migrateTo100Structure :: "menv \<Rightarrow> Function \<Rightarrow> migration \<Rightarrow> Function \<times> error option" where
  "migrateTo100Structure env f1 m =
    (case readPrevious100 env (Root f1) of
       Inl err \<Rightarrow> (f1, Some err)
     | Inr f0 \<Rightarrow>
         (f1\<lparr>Build := (Build f1)\<lparr>Git := p_Git f0, BuildType := p_BuildType f0,
                                 BuilderImages := p_BuilderImages f0,
                                 Buildpacks := p_Buildpacks f0,
                                 BuildEnvs := p_BuildEnvs f0\<rparr>,
             Run := (Run f1)\<lparr>Namespace := p_Namespace f0, Volumes := p_Volumes f0,
                             Envs := p_Envs f0, Annotations := p_Annotations f0,
                             Options := p_Options f0, Labels := p_Labels f0,
                             HealthEndpoints := p_HealthEndpoints f0\<rparr>,
             Version := fst m\<rparr>, None))"

fun run_migrator :: "migrator \<Rightarrow> menv \<Rightarrow> Function \<Rightarrow> migration \<Rightarrow> Function \<times> error option" where
  "run_migrator ToCreationStamp = migrateToCreationStamp"
| "run_migrator ToBuilderImages = migrateToBuilderImages"
| "run_migrator To100Structure = migrateTo100Structure"

definition migrations :: "migration list" where
  "migrations =
    [(''0.19.0'', ToCreationStamp),
     (''0.23.0'', ToBuilderImages),
     (''1.0.0'', To100Structure)]"

text \<open>
  The result of a call that may panic: \<open>None\<close> is the panic of \<^verbatim>\<open>semver.New\<close>,
  \<open>Some (f, err)\<close> the two values returned.
\<close>

definition Migrated :: "Function \<Rightarrow> bool option" where
  "Migrated f =
    (if Version f = [] then Some False
     else case semver_New (fst (last migrations)) of
            None \<Rightarrow> None
          | Some lastMigration \<Rightarrow>
              (case semver_New (Version f) of
                 None \<Rightarrow> None
               | Some v \<Rightarrow> Some (\<not> LessThan v lastMigration)))"

fun migrate_loop :: "menv \<Rightarrow> migration list \<Rightarrow> Function \<Rightarrow> (Function \<times> error option) option" where
  "migrate_loop env [] migrated = Some (migrated, None)"
| "migrate_loop env (m # ms) migrated =
    (case semver_New (Version migrated) of
       None \<Rightarrow> None
     | Some v \<Rightarrow>
         (case semver_New (fst m) of
            None \<Rightarrow> None
          | Some mv \<Rightarrow>
              if \<not> LessThan v mv then migrate_loop env ms migrated
              else (case run_migrator (snd m) env migrated m of
                      (migrated', Some err) \<Rightarrow> Some (migrated', Some err)
                    | (migrated', None) \<Rightarrow> migrate_loop env ms migrated')))"

definition Migrate :: "menv \<Rightarrow> Function \<Rightarrow> (Function \<times> error option) option" where
  "Migrate env f =
    (case Migrated f of
       None \<Rightarrow> None
     | Some True \<Rightarrow> Some (f, None)
     | Some False \<Rightarrow>
         (let f = (if Version f = [] then f\<lparr>Version := DefaultVersion\<rparr> else f)
          in migrate_loop env migrations f))"


text \<open>
  The version a Function is taken to have: an empty version is read as \<open>0.0.0\<close>.
\<close>

definition effective_version :: "Function \<Rightarrow> string" where
  "effective_version f = (if Version f = [] then ''0.0.0'' else Version f)"

subsection \<open>The migration rule in the words of the specification\<close>

text \<open>
  The specification's account of \<open>migrate\<close>, written down on its own for comparison
  with \<open>Migrate\<close>: an empty version counts as \<open>0.0.0\<close>; the registry is gone
  through in ascending order of threshold; a migration is applied exactly when its
  threshold is strictly greater than the current version, which is looked at again at
  every step; after a step the version is the threshold; the first failing
  transformation ends the run, and what is returned is the Function as migrated so far,
  with the error.
\<close>

fun spec_steps :: "menv \<Rightarrow> migration list \<Rightarrow> Function \<Rightarrow> (Function \<times> error option) option" where
  "spec_steps env [] d = Some (d, None)"
| "spec_steps env (m # ms) d =
    (case (semver_New (Version d), semver_New (fst m)) of
       (Some current, Some threshold) \<Rightarrow>
         if LessThan current threshold
         then (case run_migrator (snd m) env d m of
                 (_, Some err) \<Rightarrow> Some (d, Some err)
               | (d', None) \<Rightarrow> spec_steps env ms (d'\<lparr>Version := fst m\<rparr>))
         else spec_steps env ms d
     | _ \<Rightarrow> None)"

definition threshold_less :: "migration \<Rightarrow> migration \<Rightarrow> bool" where
  "threshold_less m n =
    (case (semver_New (fst m), semver_New (fst n)) of
       (Some a, Some b) \<Rightarrow> LessThan a b
     | _ \<Rightarrow> False)"

fun insert_ascending :: "migration \<Rightarrow> migration list \<Rightarrow> migration list" where
  "insert_ascending m [] = [m]"
| "insert_ascending m (n # ns) =
    (if threshold_less m n then m # n # ns else n # insert_ascending m ns)"

definition ascending :: "migration list \<Rightarrow> migration list" where
  "ascending ms = foldr insert_ascending ms []"

definition spec_migrate :: "menv \<Rightarrow> Function \<Rightarrow> (Function \<times> error option) option" where
  "spec_migrate env d =
    spec_steps env (ascending migrations)
      (if Version d = [] then d\<lparr>Version := ''0.0.0''\<rparr> else d)"

subsection \<open>Sample values\<close>

definition sample_previous100 :: previous100 where
  "sample_previous100 =
    \<lparr>p_BuildType = ''local'', p_Git = [], p_BuilderImages = Map.empty, p_Buildpacks = [],
     p_Namespace = ''default'', p_Volumes = [], p_BuildEnvs = [], p_Envs = [],
     p_Annotations = Map.empty, p_Options = [], p_Labels = [], p_HealthEndpoints = []\<rparr>"

definition sample_menv :: menv where
  "sample_menv =
    \<lparr>now = 1000, readPreviousBuilder = (\<lambda>_. Inr ''example.com/custom-builder''),
     readPrevious100 = (\<lambda>_. Inr sample_previous100)\<rparr>"

definition failing_menv :: menv where
  "failing_menv =
    \<lparr>now = 1000, readPreviousBuilder = (\<lambda>_. Inl (Err ''unreadable'')),
     readPrevious100 = (\<lambda>_. Inr sample_previous100)\<rparr>"

definition sample_function :: "string \<Rightarrow> Function" where
  "sample_function v =
    \<lparr>Root = ''/p/demo'', Name = ''demo'', Runtime = ''go'', Image = [], ImageDigest = [],
     Version = v, Created = 0,
     Build = \<lparr>Git = [], BuildType = [], BuilderImages = Map.empty, Buildpacks = [],
              BuildEnvs = []\<rparr>,
     Run = \<lparr>Namespace = [], Volumes = [], Envs = [], Annotations = Map.empty, Options = [],
            Labels = [], HealthEndpoints = []\<rparr>\<rparr>"

definition sample_migrated :: Function where
  "sample_migrated =
    (sample_function ''1.0.0'')
      \<lparr>Created := 1000,
       Build := \<lparr>Git = [], BuildType = ''local'', BuilderImages = Map.empty,
                 Buildpacks = [], BuildEnvs = []\<rparr>,
       Run := \<lparr>Namespace = ''default'', Volumes = [], Envs = [], Annotations = Map.empty,
               Options = [], Labels = [], HealthEndpoints = []\<rparr>\<rparr>"

section \<open>SHA-256\<close>

text \<open>
  \<^verbatim>\<open>crypto/sha256\<close>, as FIPS 180-4 defines it, on bytes and 32-bit words held as
  natural numbers with the wrap-around written out.
\<close>

definition rotr :: "nat \<Rightarrow> nat \<Rightarrow> nat" where
  "rotr n x = (x div 2 ^ n) + (x mod 2 ^ n) * 2 ^ (32 - n)"

definition add32 :: "nat \<Rightarrow> nat \<Rightarrow> nat" where
  "add32 x y = (x + y) mod 4294967296"

definition not32 :: "nat \<Rightarrow> nat" where
  "not32 x = 4294967295 - x"

definition Ch :: "nat \<Rightarrow> nat \<Rightarrow> nat \<Rightarrow> nat" where
  "Ch x y z = (x AND y) XOR (not32 x AND z)"

definition Maj :: "nat \<Rightarrow> nat \<Rightarrow> nat \<Rightarrow> nat" where
  "Maj x y z = (x AND y) XOR (x AND z) XOR (y AND z)"

definition Sigma0 :: "nat \<Rightarrow> nat" where
  "Sigma0 x = rotr 2 x XOR rotr 13 x XOR rotr 22 x"

definition Sigma1 :: "nat \<Rightarrow> nat" where
  "Sigma1 x = rotr 6 x XOR rotr 11 x XOR rotr 25 x"

definition sigma0 :: "nat \<Rightarrow> nat" where
  "sigma0 x = rotr 7 x XOR rotr 18 x XOR (x div 2 ^ 3)"

definition sigma1 :: "nat \<Rightarrow> nat" where
  "sigma1 x = rotr 17 x XOR rotr 19 x XOR (x div 2 ^ 10)"

definition K256 :: "nat list" where
  "K256 =
   [1116352408, 1899447441, 3049323471, 3921009573, 961987163, 1508970993, 2453635748,
    2870763221, 3624381080, 310598401, 607225278, 1426881987, 1925078388, 2162078206,
    2614888103, 3248222580, 3835390401, 4022224774, 264347078, 604807628, 770255983,
    1249150122, 1555081692, 1996064986, 2554220882, 2821834349, 2952996808, 3210313671,
    3336571891, 3584528711, 113926993, 338241895, 666307205, 773529912, 1294757372,
    1396182291, 1695183700, 1986661051, 2177026350, 2456956037, 2730485921, 2820302411,
    3259730800, 3345764771, 3516065817, 3600352804, 4094571909, 275423344, 430227734,
    506948616, 659060556, 883997877, 958139571, 1322822218, 1537002063, 1747873779,
    1955562222, 2024104815, 2227730452, 2361852424, 2428436474, 2756734187, 3204031479,
    3329325298]"

definition H0 :: "nat list" where
  "H0 = [1779033703, 3144134277, 1013904242, 2773480762,
         1359893119, 2600822924, 528734635, 1541459225]"

text \<open>
  The message schedule is kept as its last sixteen words, the newest first; the first
  sixteen rounds take their word from the block, the later ones from the schedule.
\<close>

definition next_w :: "nat list \<Rightarrow> nat" where
  "next_w ws = add32 (add32 (sigma1 (ws ! 1)) (ws ! 6)) (add32 (sigma0 (ws ! 14)) (ws ! 15))"

fun round_fin :: "nat \<Rightarrow> nat \<Rightarrow> nat list \<Rightarrow> nat list" where
  "round_fin t1 t2 [a, b, c, d, e, f, g, h] = [add32 t1 t2, a, b, c, add32 d t1, e, f, g]"
| "round_fin t1 t2 s = s"

fun round256 :: "nat \<Rightarrow> nat \<Rightarrow> nat list \<Rightarrow> nat list" where
  "round256 k w [a, b, c, d, e, f, g, h] =
    round_fin (add32 (add32 (add32 h (Sigma1 e)) (add32 (Ch e f g) k)) w)
              (add32 (Sigma0 a) (Maj a b c)) [a, b, c, d, e, f, g, h]"
| "round256 k w s = s"

fun rounds_w :: "nat list \<Rightarrow> nat \<Rightarrow> nat list \<Rightarrow> nat list \<Rightarrow> nat list"
and rounds :: "nat list \<Rightarrow> nat list \<Rightarrow> nat list \<Rightarrow> nat list \<Rightarrow> nat list" where
  "rounds_w [] w ws s = s"
| "rounds_w (k # ks) w ws s = rounds ks (w # butlast ws) [] (round256 k w s)"
| "rounds [] ws blk s = s"
| "rounds (k # ks) ws [] s = rounds_w (k # ks) (next_w ws) ws s"
| "rounds (k # ks) ws (w # blk) s = rounds ks (w # butlast ws) blk (round256 k w s)"

definition compress :: "nat list \<Rightarrow> nat list \<Rightarrow> nat list" where
  "compress s blk =
    map2 add32 s (rounds K256 [0, 0, 0, 0, 0, 0, 0, 0, 0, 0, 0, 0, 0, 0, 0, 0] blk s)"

definition be_bytes4 :: "nat \<Rightarrow> nat list" where
  "be_bytes4 x = [x div 16777216 mod 256, x div 65536 mod 256, x div 256 mod 256, x mod 256]"

definition be_bytes8 :: "nat \<Rightarrow> nat list" where
  "be_bytes8 x = be_bytes4 (x div 4294967296) @ be_bytes4 (x mod 4294967296)"

definition zeros64 :: "nat list" where
  "zeros64 =
    [0, 0, 0, 0, 0, 0, 0, 0, 0, 0, 0, 0, 0, 0, 0, 0, 0, 0, 0, 0, 0, 0, 0, 0, 0, 0, 0, 0, 0, 0, 0, 0,
     0, 0, 0, 0, 0, 0, 0, 0, 0, 0, 0, 0, 0, 0, 0, 0, 0, 0, 0, 0, 0, 0, 0, 0, 0, 0, 0, 0, 0, 0, 0, 0]"

definition sha_pad :: "nat list \<Rightarrow> nat list" where
  "sha_pad bs =
    bs @ [128] @ take ((119 - length bs mod 64) mod 64) zeros64 @ be_bytes8 (8 * length bs)"

fun be_words :: "nat list \<Rightarrow> nat list" where
  "be_words (a # b # c # d # bs) = (((a * 256 + b) * 256 + c) * 256 + d) # be_words bs"
| "be_words bs = []"

fun sha_blocks :: "nat list \<Rightarrow> nat list \<Rightarrow> nat list" where
  "sha_blocks s (w0 # w1 # w2 # w3 # w4 # w5 # w6 # w7 # w8 # w9 # w10 # w11 # w12 # w13 #
                 w14 # w15 # ws) =
     sha_blocks (compress s [w0, w1, w2, w3, w4, w5, w6, w7, w8, w9, w10, w11, w12, w13,
                             w14, w15]) ws"
| "sha_blocks s ws = s"

definition sha256 :: "string \<Rightarrow> nat list" where
  "sha256 msg = concat (map be_bytes4 (sha_blocks H0 (be_words (sha_pad (map of_char msg)))))"

text \<open>\<^verbatim>\<open>fmt.Sprintf("%x", bytes)\<close>: two lowercase hexadecimal digits for each byte.\<close>

definition hex_digit :: "nat \<Rightarrow> char" where
  "hex_digit d = ''0123456789abcdef'' ! (d mod 16)"

definition hex_encode :: "nat list \<Rightarrow> string" where
  "hex_encode bs = concat (map (\<lambda>b. [hex_digit (b div 16), hex_digit b]) bs)"

section \<open>The project tree and the fingerprint\<close>

text \<open>\<^verbatim>\<open>%v\<close> of an int64: the decimal digits, with a minus sign when negative.\<close>

fun decimal :: "nat \<Rightarrow> string" where
  "decimal n = (if n < 10 then [''0123456789'' ! n]
                else decimal (n div 10) @ [''0123456789'' ! (n mod 10)])"

declare decimal.simps [simp del]

definition show_int :: "int \<Rightarrow> string" where
  "show_int i = (if i < 0 then CHR ''-'' # decimal (nat (- i)) else decimal (nat i))"

text \<open>
  \<^verbatim>\<open>filepath.Clean\<close> and \<^verbatim>\<open>filepath.Join\<close> (with \<open>/\<close> as the separator).
  \<open>Clean\<close> goes through the elements of the path between separators: an empty
  element and \<open>.\<close> are dropped; \<open>..\<close> removes the element before it when there
  is one that is not \<open>..\<close> itself, is dropped at the start of a rooted path, and is
  kept otherwise.  The elements kept (held last first while cleaning) are joined again,
  after the root separator of a rooted path; a path with nothing left is \<open>.\<close>.
  \<open>Join\<close> leaves out the empty elements in front, joins the rest with separators
  and cleans the result; with no element left it is the empty string.
\<close>

fun join_with :: "string \<Rightarrow> string list \<Rightarrow> string" where
  "join_with sep [] = []"
| "join_with sep [x] = x"
| "join_with sep (x # y # ys) = x @ sep @ join_with sep (y # ys)"

definition clean_step :: "bool \<Rightarrow> string list \<Rightarrow> string \<Rightarrow> string list" where
  "clean_step rooted kept element =
    (if element = [] \<or> element = ''.'' then kept
     else if element = ''..'' then
       (if kept \<noteq> [] \<and> hd kept \<noteq> ''..'' then tl kept
        else if rooted then kept
        else ''..'' # kept)
     else element # kept)"

definition Clean :: "string \<Rightarrow> string" where
  "Clean path =
    (if path = [] then ''.''
     else if hd path = CHR ''/''
     then CHR ''/'' # join_with ''/''
            (rev (foldl (clean_step True) [] (split_at (CHR ''/'') [] path)))
     else if foldl (clean_step False) [] (split_at (CHR ''/'') [] path) = [] then ''.''
     else join_with ''/'' (rev (foldl (clean_step False) [] (split_at (CHR ''/'') [] path))))"

definition Join :: "string list \<Rightarrow> string" where
  "Join elem =
    (case dropWhile (\<lambda>e. e = []) elem of
       [] \<Rightarrow> []
     | e # es \<Rightarrow> Clean (join_with ''/'' (e # es)))"

definition RunDataDir :: string where
  "RunDataDir = ''.func''"

definition buildstamp :: string where
  "buildstamp = ''built''"

text \<open>
  What \<^verbatim>\<open>filepath.Walk\<close> finds at a path: a file or a directory with its name and
  its modification time in nanoseconds (\<^verbatim>\<open>ModTime().UnixNano()\<close>), a directory
  whose entries cannot be listed, or a name on which \<^verbatim>\<open>Lstat\<close> fails.  The entries
  of a directory are in the order the operating system lists them.
\<close>

datatype node =
    File string int
  | Dir string int "node list"
  | DirUnreadable string int error
  | Broken string error

fun node_name :: "node \<Rightarrow> string" where
  "node_name (File n t) = n"
| "node_name (Dir n t es) = n"
| "node_name (DirUnreadable n t e) = n"
| "node_name (Broken n e) = n"

fun node_IsDir :: "node \<Rightarrow> bool" where
  "node_IsDir (File n t) = False"
| "node_IsDir (Dir n t es) = True"
| "node_IsDir (DirUnreadable n t e) = True"
| "node_IsDir (Broken n e) = False"

record FileInfo =
  fi_Name :: string
  fi_ModTime :: int
  fi_IsDir :: bool

datatype walk_error = SkipDir | WalkErr error

text \<open>
  The function literal that \<open>fingerprint\<close> passes to \<^verbatim>\<open>filepath.Walk\<close>.  The
  state \<open>h\<close> is everything written to the hash so far.  \<^verbatim>\<open>Walk\<close> passes no
  \<^verbatim>\<open>FileInfo\<close> only together with an error, which is returned before the
  \<^verbatim>\<open>FileInfo\<close> is looked at.
\<close>

definition fingerprint_fn :: "string \<Rightarrow> FileInfo option \<Rightarrow> error option \<Rightarrow> string
    \<Rightarrow> string \<times> walk_error option" where
  "fingerprint_fn path info err h =
    (case err of
       Some e \<Rightarrow> (h, Some (WalkErr e))
     | None \<Rightarrow>
        (case info of
           None \<Rightarrow> (h, Some (WalkErr (Err ''invalid memory address or nil pointer dereference'')))
         | Some i \<Rightarrow>
             if fi_IsDir i \<and> (fi_Name i = RunDataDir \<or> fi_Name i = ''.git'')
             then (h, Some SkipDir)
             else (h @ path @ '':'' @ show_int (fi_ModTime i) @ '':'', None)))"

fun node_info :: "node \<Rightarrow> FileInfo option" where
  "node_info (File n t) = Some \<lparr>fi_Name = n, fi_ModTime = t, fi_IsDir = False\<rparr>"
| "node_info (Dir n t es) = Some \<lparr>fi_Name = n, fi_ModTime = t, fi_IsDir = True\<rparr>"
| "node_info (DirUnreadable n t e) = Some \<lparr>fi_Name = n, fi_ModTime = t, fi_IsDir = True\<rparr>"
| "node_info (Broken n e) = None"

text \<open>
  \<^verbatim>\<open>filepath.Walk\<close> with that function: \<open>walk\<close> is the library's \<^verbatim>\<open>walk\<close>
  on one path, \<open>walk_entries\<close> its loop over the sorted names of a directory
  (the root's own \<^verbatim>\<open>Lstat\<close> failure is the third equation of \<open>walk\<close>).  A
  directory is announced before its entries are read; \<open>SkipDir\<close> returned for it
  makes the loop of its parent go on to the next name, any other error ends the walk.
\<close>

lemma size_list_insort_key:
  "size_list f (insort_key k x xs) = Suc (f x + size_list f xs)"
  by (induction xs) auto

lemma size_list_sort_key: "size_list f (sort_key k xs) = size_list f xs"
  by (induction xs) (auto simp: size_list_insort_key)

function (sequential) walk :: "string \<Rightarrow> node \<Rightarrow> string \<Rightarrow> string \<times> walk_error option"
  and walk_entries :: "string \<Rightarrow> node list \<Rightarrow> string \<Rightarrow> string \<times> walk_error option" where
  "walk path (File n t) h = fingerprint_fn path (node_info (File n t)) None h"
| "walk path (DirUnreadable n t e) h =
     fingerprint_fn path (node_info (DirUnreadable n t e)) (Some e) h"
| "walk path (Broken n e) h = fingerprint_fn path None (Some e) h"
| "walk path (Dir n t es) h =
     (case fingerprint_fn path (node_info (Dir n t es)) None h of
        (h1, Some err1) \<Rightarrow> (h1, Some err1)
      | (h1, None) \<Rightarrow> walk_entries path (sort_key node_name es) h1)"
| "walk_entries path [] h = (h, None)"
| "walk_entries path (Broken n e # es) h =
     (case fingerprint_fn (Join [path, n]) None (Some e) h of
        (h1, None) \<Rightarrow> walk_entries path es h1
      | (h1, Some err) \<Rightarrow>
          if err \<noteq> SkipDir then (h1, Some err) else walk_entries path es h1)"
| "walk_entries path (e # es) h =
     (case walk (Join [path, node_name e]) e h of
        (h1, None) \<Rightarrow> walk_entries path es h1
      | (h1, Some err) \<Rightarrow>
          if \<not> node_IsDir e \<or> err \<noteq> SkipDir then (h1, Some err)
          else walk_entries path es h1)"
  by pat_completeness auto
termination
  by (relation "measure (\<lambda>x. case x of Inl (p, n, h) \<Rightarrow> size n
                                         | Inr (p, es, h) \<Rightarrow> size_list size es)")
     (auto simp: size_list_sort_key)

definition filepath_Walk :: "string \<Rightarrow> node \<Rightarrow> string \<Rightarrow> string \<times> error option" where
  "filepath_Walk root tree h =
    (case walk root tree h of
       (h1, None) \<Rightarrow> (h1, None)
     | (h1, Some SkipDir) \<Rightarrow> (h1, None)
     | (h1, Some (WalkErr e)) \<Rightarrow> (h1, Some e))"

text \<open>
  \<open>fingerprint\<close>, given what the walk from the Function's root finds.  As in the
  source, the digest of what was written is returned in either case, next to the error.
\<close>

definition fingerprint :: "Function \<Rightarrow> node \<Rightarrow> string \<times> error option" where
  "fingerprint f tree =
    (case filepath_Walk (Root f) tree [] of
       (h, err) \<Rightarrow> (hex_encode (sha256 h), err))"

section \<open>The file system, the collaborators and the rest of the package\<close>

text \<open>
  The file system as the client uses it: the content of every regular file and the set
  of directories, both by path.
\<close>

record filesys =
  files :: "string \<rightharpoonup> string"
  dirs :: "string set"

text \<open>
  What the client does to the outside is recorded in the order it happens: the calls on the
  \<^verbatim>\<open>ProgressListener\<close> and the calls on the collaborators, each with its argument.
  The context is taken not to be cancelled while an operation runs, so the record has no
  \<^verbatim>\<open>Stopping\<close>.
\<close>

datatype event =
    SetTotal int
  | Increment string
  | Complete string
  | CallBuild Function
  | CallPush Function
  | CallDeploy Function
  | CallProvide Function
  | CallRemove string
  | CallPipelinesRemove Function

text \<open>
  The world also holds, for every goroutine that \<^verbatim>\<open>printBuildActivity\<close> has started,
  the index \<open>i\<close> of the message it will report next.
\<close>

record world =
  fs :: filesys
  events :: "event list"
  tickers :: "nat list"

datatype Status = Failed | Deployed | Updated

record DeploymentResult =
  Status :: Status
  URL :: string

text \<open>
  The collaborators of a \<^verbatim>\<open>Client\<close>.  Each gives, for its arguments, the values its
  Go method returns; they work on systems outside the project directory.
\<close>

record Client =
  verbose :: bool
  registry :: string
  builder :: "Function \<Rightarrow> error option"
  pusher :: "Function \<Rightarrow> string \<times> error option"
  deployer :: "Function \<Rightarrow> DeploymentResult \<times> error option"
  dnsProvider :: "Function \<Rightarrow> error option"
  remover :: "string \<Rightarrow> error option"
  pipelinesRemove :: "Function \<Rightarrow> error option"

text \<open>
  The operating system and the functions of the package whose source is not at hand
  (\<^verbatim>\<open>NewFunction\<close>, \<^verbatim>\<open>Function.Write\<close>, \<^verbatim>\<open>Function.Initialized\<close>,
  \<^verbatim>\<open>hasInitializedFunction\<close>, \<^verbatim>\<open>assertEmptyRoot\<close>, \<^verbatim>\<open>nameFromPath\<close>,
  \<^verbatim>\<open>NewFunctionWith\<close>, \<^verbatim>\<open>DerivedImage\<close>, \<^verbatim>\<open>Templates.Write\<close>) are parameters:
  every theorem below holds whatever they do.  A \<open>fault\<close> says whether a system call
  fails for a reason the file-system model does not show (permissions, a full disk);
  \<open>tree_at\<close> is what \<^verbatim>\<open>Lstat\<close> and the directory listings report below a root;
  \<open>ticks\<close> is the clock of the ten-second tickers: given the record so far, the
  goroutines of \<^verbatim>\<open>printBuildActivity\<close> (by number, in the order they were started)
  whose ticker fires before the record is next written to, in the order they fire.
\<close>

record platform =
  mkdir_fault :: "filesys \<Rightarrow> string \<Rightarrow> error option"
  write_fault :: "filesys \<Rightarrow> string \<Rightarrow> error option"
  read_fault :: "filesys \<Rightarrow> string \<Rightarrow> error option"
  stat_fault :: "filesys \<Rightarrow> string \<Rightarrow> error option"
  tree_at :: "filesys \<Rightarrow> string \<Rightarrow> node"
  ticks :: "event list \<Rightarrow> nat list"
  filepath_Abs :: "string \<Rightarrow> error + string"
  os_Getwd :: "error + string"
  time_Now :: int
  GOOS :: string
  NewFunction :: "filesys \<Rightarrow> string \<Rightarrow> error + Function"
  Write :: "filesys \<Rightarrow> Function \<Rightarrow> filesys \<times> error option"
  Initialized :: "Function \<Rightarrow> bool"
  hasInitializedFunction :: "filesys \<Rightarrow> string \<Rightarrow> error + bool"
  assertEmptyRoot :: "filesys \<Rightarrow> string \<Rightarrow> error option"
  nameFromPath :: "string \<Rightarrow> string"
  NewFunctionWith :: "Function \<Rightarrow> Function"
  DerivedImage :: "filesys \<Rightarrow> string \<Rightarrow> string \<Rightarrow> error + string"
  Templates_Write :: "filesys \<Rightarrow> Function \<Rightarrow> filesys \<times> Function \<times> error option"

subsection \<open>The progress record and the build heartbeat\<close>

text \<open>
  \<^verbatim>\<open>printBuildActivity\<close> starts a goroutine that, each time its ticker fires,
  reports the message at its index as an increment and moves the index on, round the
  six messages.  The goroutine goes on after \<open>Build\<close> has returned, until the
  context is done.
\<close>

definition beat_messages :: "string list" where
  "beat_messages =
    [''Still building'', ''Still building'', ''Yes, still building'',
     ''Don'' @ [CHR 0x27] @ ''t give up on me'', ''Still building'',
     ''This is taking a while'']"

definition printBuildActivity :: "world \<Rightarrow> world" where
  "printBuildActivity w = w\<lparr>tickers := tickers w @ [0]\<rparr>"

text \<open>
  The tickers of the goroutines \<open>gs\<close> fire, one after the other.  The index of a
  goroutine is below six in every world the client reaches; it is read modulo six, so
  that the record is defined in every world.
\<close>

fun fire :: "world \<Rightarrow> nat list \<Rightarrow> world" where
  "fire w [] = w"
| "fire w (g # gs) =
    (if g < length (tickers w)
     then fire (w\<lparr>events := events w @ [Increment (beat_messages ! (tickers w ! g mod 6))],
                 tickers := (tickers w)[g := (tickers w ! g + 1) mod 6]\<rparr>) gs
     else fire w gs)"

definition beat :: "platform \<Rightarrow> world \<Rightarrow> world" where
  "beat p w = fire w (ticks p (events w))"

definition log_event :: "event \<Rightarrow> world \<Rightarrow> world" where
  "log_event e w = w\<lparr>events := events w @ [e]\<rparr>"

text \<open>
  A call the client makes on the progress listener or on a collaborator.  The tickers
  fire when they will: in the record the call comes after the increments of the tickers
  that fired before it, and the increments of those that fire while it is served come
  next.
\<close>

definition emit :: "platform \<Rightarrow> event \<Rightarrow> world \<Rightarrow> world" where
  "emit p e w = beat p (log_event e (beat p w))"

text \<open>
  Modelled from the spec: \<^verbatim>\<open>Function.HasImage\<close> is in a file that is not among the
  sources.  The specification speaks of a Descriptor that "has no image" and says that a
  Descriptor "only carries an image once a build has produced one": the Function has an
  image when its image field is not empty.  (\<open>Image\<close> and \<open>ImageDigest\<close> are
  the client's \<^verbatim>\<open>f.Runtime.Image\<close> and \<^verbatim>\<open>f.Runtime.ImageDigest\<close>.)
\<close>

definition HasImage :: "Function \<Rightarrow> bool" where
  "HasImage f = (Image f \<noteq> [])"

subsection \<open>System calls\<close>

definition os_MkdirAll :: "platform \<Rightarrow> filesys \<Rightarrow> string \<Rightarrow> filesys \<times> error option" where
  "os_MkdirAll p s path =
    (case mkdir_fault p s path of
       Some e \<Rightarrow> (s, Some e)
     | None \<Rightarrow>
         if files s path \<noteq> None then (s, Some (Err (''mkdir '' @ path @ '': not a directory'')))
         else (s\<lparr>dirs := insert path (dirs s)\<rparr>, None))"

definition os_WriteFile :: "platform \<Rightarrow> filesys \<Rightarrow> string \<Rightarrow> string \<Rightarrow> filesys \<times> error option" where
  "os_WriteFile p s name data =
    (case write_fault p s name of
       Some e \<Rightarrow> (s, Some e)
     | None \<Rightarrow>
         if name \<in> dirs s then (s, Some (Err (''open '' @ name @ '': is a directory'')))
         else (s\<lparr>files := (files s)(name \<mapsto> data)\<rparr>, None))"

definition os_ReadFile :: "platform \<Rightarrow> filesys \<Rightarrow> string \<Rightarrow> error + string" where
  "os_ReadFile p s name =
    (case read_fault p s name of
       Some e \<Rightarrow> Inl e
     | None \<Rightarrow>
         (case files s name of
            None \<Rightarrow> Inl (Err (''open '' @ name @ '': no such file or directory''))
          | Some data \<Rightarrow> Inr data))"

definition os_Stat :: "platform \<Rightarrow> filesys \<Rightarrow> string \<Rightarrow> error option" where
  "os_Stat p s name =
    (case stat_fault p s name of
       Some e \<Rightarrow> Some e
     | None \<Rightarrow>
         if files s name = None \<and> name \<notin> dirs s
         then Some (Err (''stat '' @ name @ '': no such file or directory''))
         else None)"

section \<open>The client\<close>

definition gitignore :: string where
  "gitignore =
    [CHR 0x0A] @ ''# Functions use the .func directory for local runtime data which should''
    @ [CHR 0x0A] @ ''# generally not be tracked in source control:''
    @ [CHR 0x0A] @ ''/.func'' @ [CHR 0x0A]"

definition ensureRuntimeDir :: "platform \<Rightarrow> filesys \<Rightarrow> Function \<Rightarrow> filesys \<times> error option" where
  "ensureRuntimeDir p s f =
    (case os_MkdirAll p s (Join [Root f, RunDataDir]) of
       (s1, Some err) \<Rightarrow> (s1, Some err)
     | (s1, None) \<Rightarrow> os_WriteFile p s1 (Join [Root f, ''.gitignore'']) gitignore)"

definition updateBuildStamp :: "platform \<Rightarrow> filesys \<Rightarrow> Function \<Rightarrow> filesys \<times> error option" where
  "updateBuildStamp p s f =
    (case ensureRuntimeDir p s f of
       (s1, Some err) \<Rightarrow> (s1, Some err)
     | (s1, None) \<Rightarrow>
         (case fingerprint f (tree_at p s1 (Root f)) of
            (hash, Some err) \<Rightarrow> (s1, Some err)
          | (hash, None) \<Rightarrow>
              os_WriteFile p s1 (Join [Root f, RunDataDir, buildstamp]) hash))"

text \<open>
  \<open>Create\<close> works on the file system alone: it reports no progress and calls no
  collaborator.
\<close>

definition Create :: "platform \<Rightarrow> filesys \<Rightarrow> Function \<Rightarrow> filesys \<times> error option" where
  "Create p s cfg =
    (case filepath_Abs p (Root cfg) of
       Inl err \<Rightarrow> (s, Some err)
     | Inr root \<Rightarrow>
    (let cfg = cfg\<lparr>Root := root\<rparr> in
     case os_MkdirAll p s (Root cfg) of
       (s, Some err) \<Rightarrow> (s, Some err)
     | (s, None) \<Rightarrow>
    (case hasInitializedFunction p s (Root cfg) of
       Inl err \<Rightarrow> (s, Some err)
     | Inr hasFunc \<Rightarrow>
     if hasFunc
     then (s, Some (Err (''Function at '' @ [CHR 0x27] @ Root cfg @ [CHR 0x27] @ '' already initialized'')))
     else
    (case (if Root cfg = [] then os_Getwd p else Inr (Root cfg)) of
       Inl err \<Rightarrow> (s, Some err)
     | Inr root \<Rightarrow>
    (let cfg = cfg\<lparr>Root := root\<rparr>;
         cfg = (if Name cfg = [] then cfg\<lparr>Name := nameFromPath p (Root cfg)\<rparr> else cfg) in
     case assertEmptyRoot p s (Root cfg) of
       Some err \<Rightarrow> (s, Some err)
     | None \<Rightarrow>
    (let f = NewFunctionWith p cfg in
     case ensureRuntimeDir p s f of
       (s, Some err) \<Rightarrow> (s, Some err)
     | (s, None) \<Rightarrow>
    (case Templates_Write p s f of
       (s, f, Some err) \<Rightarrow> (s, Some err)
     | (s, f, None) \<Rightarrow> Write p s (f\<lparr>Created := time_Now p\<rparr>))))))))"

text \<open>An operation on the file system, run inside the world.\<close>

definition on_fs :: "(filesys \<Rightarrow> filesys \<times> error option) \<Rightarrow> world \<Rightarrow> world \<times> error option" where
  "on_fs op w = (case op (fs w) of (s, err) \<Rightarrow> (w\<lparr>fs := s\<rparr>, err))"

definition built_message :: "platform \<Rightarrow> string \<Rightarrow> string" where
  "built_message p img =
    (if GOOS p = ''windows'' then ''Function image built: '' @ img
     else [CHR 0xF0, CHR 0x9F, CHR 0x99, CHR 0x8C] @ '' Function image built: '' @ img)"

definition Build_op :: "Client \<Rightarrow> platform \<Rightarrow> world \<Rightarrow> string \<Rightarrow> world \<times> error option" where
  "Build_op c p w path =
    (let w = emit p (Increment ''Building function image'') w;
         w = (if \<not> verbose c then printBuildActivity w else w) in
     case NewFunction p (fs w) path of
       Inl err \<Rightarrow> (w, Some err)
     | Inr f \<Rightarrow>
    (case DerivedImage p (fs w) path (registry c) of
       Inl err \<Rightarrow> (w, Some err)
     | Inr img \<Rightarrow>
    (let f = f\<lparr>Image := img\<rparr>;
         w = emit p (CallBuild f) w in
     case builder c f of
       Some err \<Rightarrow> (w, Some err)
     | None \<Rightarrow>
    (case on_fs (\<lambda>s. Write p s f) w of
       (w, Some err) \<Rightarrow> (w, Some err)
     | (w, None) \<Rightarrow>
    (case on_fs (\<lambda>s. updateBuildStamp p s f) w of
       (w, Some err) \<Rightarrow> (w, Some err)
     | (w, None) \<Rightarrow> (emit p (Increment (built_message p (Image f))) w, None))))))"

definition Deploy :: "Client \<Rightarrow> platform \<Rightarrow> world \<Rightarrow> string \<Rightarrow> world \<times> error option" where
  "Deploy c p w path =
    (case NewFunction p (fs w) path of
       Inl err \<Rightarrow> (w, Some err)
     | Inr f \<Rightarrow>
         if \<not> HasImage f then (w, Some ErrNotBuilt)
         else
          (let w = emit p (Increment ''Deploying function to the cluster'') w;
               w = emit p (CallDeploy f) w in
           case deployer c f of
             (result, err) \<Rightarrow>
               (if Status result = Deployed
                then emit p (Increment (''Function deployed at URL: '' @ URL result)) w
                else if Status result = Updated
                then emit p (Increment (''Function updated at URL: '' @ URL result)) w
                else w, err)))"

definition Route :: "Client \<Rightarrow> platform \<Rightarrow> world \<Rightarrow> string \<Rightarrow> world \<times> error option" where
  "Route c p w path =
    (case NewFunction p (fs w) path of
       Inl err \<Rightarrow> (w, Some err)
     | Inr f \<Rightarrow> (emit p (CallProvide f) w, dnsProvider c f))"

definition Push :: "Client \<Rightarrow> platform \<Rightarrow> world \<Rightarrow> string \<Rightarrow> world \<times> error option" where
  "Push c p w path =
    (case NewFunction p (fs w) path of
       Inl err \<Rightarrow> (w, Some err)
     | Inr f \<Rightarrow>
         if \<not> HasImage f then (w, Some ErrNotBuilt)
         else
          (let w = emit p (CallPush f) w in
           case pusher c f of
             (imageDigest, Some err) \<Rightarrow> (w, Some err)
           | (imageDigest, None) \<Rightarrow>
               on_fs (\<lambda>s. Write p s (f\<lparr>ImageDigest := imageDigest\<rparr>)) w))"

definition New :: "Client \<Rightarrow> platform \<Rightarrow> world \<Rightarrow> Function \<Rightarrow> world \<times> error option" where
  "New c p w cfg =
    (let w = emit p (SetTotal 3) w in
     case on_fs (\<lambda>s. Create p s cfg) w of
       (w, Some err) \<Rightarrow> (w, Some err)
     | (w, None) \<Rightarrow>
    (case NewFunction p (fs w) (Root cfg) of
       Inl err \<Rightarrow> (w, Some err)
     | Inr f \<Rightarrow>
    (case Build_op c p (emit p (Increment ''Building container image'') w) (Root f) of
       (w, Some err) \<Rightarrow> (w, Some err)
     | (w, None) \<Rightarrow>
    (case Push c p (emit p (Increment ''Pushing container image to registry'') w) (Root f) of
       (w, Some err) \<Rightarrow> (w, Some err)
     | (w, None) \<Rightarrow>
    (case Deploy c p (emit p (Increment ''Deploying Function to cluster'') w) (Root f) of
       (w, Some err) \<Rightarrow> (w, Some err)
     | (w, None) \<Rightarrow>
    (case Route c p (emit p (Increment ''Creating route to Function'') w) (Root f) of
       (w, Some err) \<Rightarrow> (w, Some err)
     | (w, None) \<Rightarrow> (emit p (Complete ''Done'') w, None)))))))"

text \<open>
  \<open>Remove\<close>.  The service is removed in a goroutine while the pipeline resources are
  removed in the calling one, and the result of the goroutine is awaited in either case;
  the record lists the call of the remover first.
\<close>

definition Remove :: "Client \<Rightarrow> platform \<Rightarrow> world \<Rightarrow> Function \<Rightarrow> bool \<Rightarrow> world \<times> error option" where
  "Remove c p w cfg deleteAll =
    (case (if Name cfg = []
           then (case NewFunction p (fs w) (Root cfg) of
                   Inl err \<Rightarrow> Inl err
                 | Inr f \<Rightarrow>
                     if \<not> Initialized p f
                     then Inl (Err (''Function at '' @ Root f @
                            '' can not be removed unless initialized. Try removing by name''))
                     else Inr (Name f, f))
           else Inr (Name cfg, cfg)) of
       Inl err \<Rightarrow> (w, Some err)
     | Inr (functionName, cfg) \<Rightarrow>
        (let w = emit p (Increment (''Removing Knative Service: '' @ functionName)) w;
             w = emit p (CallRemove functionName) w;
             errService = remover c functionName;
             (w, errResources) =
               (if deleteAll
                then (emit p (CallPipelinesRemove cfg)
                        (emit p (Increment (''Removing Knative Service '' @ [CHR 0x27] @ functionName
                           @ [CHR 0x27] @ '' and all dependent resources'')) w),
                      pipelinesRemove c cfg)
                else (w, None))
         in case (errService, errResources) of
              (Some es, Some er) \<Rightarrow>
                (w, Some (Err (error_msg es @ [CHR 0x0A] @ error_msg er)))
            | (_, Some er) \<Rightarrow> (w, Some er)
            | (es, None) \<Rightarrow> (w, es)))"


subsection \<open>Reading the record of a run\<close>

datatype collaborator = Builder | Pusher | Deployer | DNSProvider | Remover | PipelinesProvider

fun called :: "event \<Rightarrow> collaborator option" where
  "called (CallBuild f) = Some Builder"
| "called (CallPush f) = Some Pusher"
| "called (CallDeploy f) = Some Deployer"
| "called (CallProvide f) = Some DNSProvider"
| "called (CallRemove n) = Some Remover"
| "called (CallPipelinesRemove f) = Some PipelinesProvider"
| "called e = None"

fun calls :: "event list \<Rightarrow> collaborator list" where
  "calls [] = []"
| "calls (e # es) = (case called e of None \<Rightarrow> calls es | Some k \<Rightarrow> k # calls es)"

definition call_events :: "event list \<Rightarrow> event list" where
  "call_events evs = filter (\<lambda>e. called e \<noteq> None) evs"

text \<open>The error, if any, that the collaborator returned to the call recorded.\<close>

fun call_result :: "Client \<Rightarrow> event \<Rightarrow> error option" where
  "call_result c (CallBuild f) = builder c f"
| "call_result c (CallPush f) = snd (pusher c f)"
| "call_result c (CallDeploy f) = snd (deployer c f)"
| "call_result c (CallProvide f) = dnsProvider c f"
| "call_result c (CallRemove n) = remover c n"
| "call_result c (CallPipelinesRemove f) = pipelinesRemove c f"
| "call_result c e = None"

text \<open>The increments of the build heartbeat, and the record without them.\<close>

fun is_heartbeat :: "event \<Rightarrow> bool" where
  "is_heartbeat (Increment m) = (m \<in> set beat_messages)"
| "is_heartbeat e = False"

definition own :: "event list \<Rightarrow> event list" where
  "own evs = filter (\<lambda>e. \<not> is_heartbeat e) evs"

text \<open>The four increments that \<open>New\<close> itself reports, one before each stage.\<close>

definition New_announcements :: "event list" where
  "New_announcements =
    [Increment ''Building container image'',
     Increment ''Pushing container image to registry'',
     Increment ''Deploying Function to cluster'',
     Increment ''Creating route to Function'']"

text \<open>What \<open>Deploy\<close> reports about the outcome the deployer returned.\<close>

definition deployment_report :: "DeploymentResult \<Rightarrow> event list" where
  "deployment_report result =
    (if Status result = Deployed
     then [Increment (''Function deployed at URL: '' @ URL result)]
     else if Status result = Updated
     then [Increment (''Function updated at URL: '' @ URL result)]
     else [])"

subsection \<open>The fingerprint in the words of the specification\<close>

text \<open>
  The entries that count, with their modification times: every entry under the root
  except the directories named \<open>.func\<close> and \<open>.git\<close> and all they contain, each
  directory before its entries, the entries of a directory by name.  The path of an
  entry is the path it is listed under joined with its name; \<open>listing root\<close> gives
  the paths the walk sees, \<open>listing ''.''\<close> the paths relative to the root.
\<close>

definition skipped :: "string \<Rightarrow> bool" where
  "skipped n = (n = ''.func'' \<or> n = ''.git'')"

fun listing :: "string \<Rightarrow> node \<Rightarrow> (string \<times> int) list" where
  "listing path (File n t) = [(path, t)]"
| "listing path (Dir n t es) =
    (if skipped n then []
     else (path, t) # concat (map (\<lambda>e. listing (Join [path, node_name e]) e)
                              (sort_key node_name es)))"
| "listing path (DirUnreadable n t e) = []"
| "listing path (Broken n e) = []"

definition entry_text :: "string \<times> int \<Rightarrow> string" where
  "entry_text e = fst e @ '':'' @ show_int (snd e) @ '':''"

text \<open>A tree in which the walk meets no error (what a skipped directory holds is not met).\<close>

fun readable :: "node \<Rightarrow> bool" where
  "readable (File n t) = True"
| "readable (Dir n t es) = (skipped n \<or> (\<forall>e \<in> set es. readable e))"
| "readable (DirUnreadable n t e) = False"
| "readable (Broken n e) = False"

subsection \<open>A sample project\<close>

text \<open>
  A small platform and client to run the operations on: no system call fails, the
  descriptor file holds the image and its digest separated by \<open>@\<close>, the
  project tree is the one below whatever the root is, and the ticker of the first
  build goroutine fires once before and once after every call the client makes.  The
  client is not verbose.
\<close>

definition sample_tree :: node where
  "sample_tree =
    Dir ''demo'' 5
      [File ''main.go'' 7, File ''func.yaml'' 6, Dir ''.func'' 8 [File ''built'' 9],
       Dir ''.git'' 3 [File ''HEAD'' 4]]"

definition sample_load :: "filesys \<Rightarrow> string \<Rightarrow> error + Function" where
  "sample_load s path =
    (case files s (Join [path, ''func.yaml'']) of
       None \<Rightarrow> Inr ((sample_function ''1.0.0'')\<lparr>Root := path, Name := [], Runtime := []\<rparr>)
     | Some text \<Rightarrow>
         Inr ((sample_function ''1.0.0'')
               \<lparr>Root := path, Created := 1000,
                Image := takeWhile (\<lambda>x. x \<noteq> CHR ''@'') text,
                ImageDigest := drop (Suc (length (takeWhile (\<lambda>x. x \<noteq> CHR ''@'') text))) text\<rparr>))"

definition sample_save :: "filesys \<Rightarrow> Function \<Rightarrow> filesys \<times> error option" where
  "sample_save s f =
    (s\<lparr>files := (files s)(Join [Root f, ''func.yaml''] \<mapsto> Image f @ ''@'' @ ImageDigest f)\<rparr>,
     None)"

definition sample_platform :: platform where
  "sample_platform =
    \<lparr>mkdir_fault = (\<lambda>s path. None), write_fault = (\<lambda>s path. None),
     read_fault = (\<lambda>s path. None), stat_fault = (\<lambda>s path. None),
     tree_at = (\<lambda>s root. sample_tree), ticks = (\<lambda>evs. [0]),
     filepath_Abs = Inr, os_Getwd = Inr ''/p/demo'', time_Now = 1000, GOOS = ''linux'',
     NewFunction = sample_load, Write = sample_save,
     Initialized = (\<lambda>f. Created f \<noteq> 0),
     hasInitializedFunction = (\<lambda>s root. Inr (files s (Join [root, ''func.yaml'']) \<noteq> None)),
     assertEmptyRoot = (\<lambda>s root. None),
     nameFromPath = (\<lambda>path. ''demo''),
     NewFunctionWith = (\<lambda>cfg. cfg\<lparr>Version := ''1.0.0''\<rparr>),
     DerivedImage = (\<lambda>s path reg. Inr (reg @ ''/demo:latest'')),
     Templates_Write =
       (\<lambda>s f. (s\<lparr>files := (files s)(Join [Root f, ''main.go''] \<mapsto> ''package main'')\<rparr>,
               f, None))\<rparr>"

definition sample_client :: Client where
  "sample_client =
    \<lparr>verbose = False, registry = ''example.com/alice'',
     builder = (\<lambda>f. None),
     pusher = (\<lambda>f. (''sha256:abc'', None)),
     deployer = (\<lambda>f. (\<lparr>Status = Deployed, URL = ''http://demo.example.com''\<rparr>, None)),
     dnsProvider = (\<lambda>f. None),
     remover = (\<lambda>name. Some (Err ''service not found'')),
     pipelinesRemove = (\<lambda>f. Some (Err ''pipeline not found''))\<rparr>"

definition empty_fs :: filesys where
  "empty_fs = \<lparr>files = Map.empty, dirs = {}\<rparr>"

definition fresh_world :: world where
  "fresh_world = \<lparr>fs = empty_fs, events = [], tickers = []\<rparr>"

text \<open>The project as it is after a build and before a push.\<close>

definition built_fs :: filesys where
  "built_fs =
    \<lparr>files = [''/p/demo/func.yaml'' \<mapsto> ''example.com/alice/demo:latest@'',
              ''/p/demo/.gitignore'' \<mapsto> ''node_modules'',
              ''/p/demo/.func/built'' \<mapsto>
                ''88def8a74e565974677aa1f9b5da4cbaeb783c7becffd653bbcfbdb670da23f3''],
     dirs = {''/p/demo'', ''/p/demo/.func''}\<rparr>"

text \<open>The project as it is after \<open>Create\<close>: a descriptor with no image.\<close>

definition created_fs :: filesys where
  "created_fs =
    \<lparr>files = [''/p/demo/func.yaml'' \<mapsto> ''@'', ''/p/demo/main.go'' \<mapsto> ''package main''],
     dirs = {''/p/demo''}\<rparr>"

definition sample_cfg :: Function where
  "sample_cfg = (sample_function [])\<lparr>Name := []\<rparr>"

text \<open>The same client with a registry that refuses the push.\<close>

definition refused_client :: Client where
  "refused_client = sample_client\<lparr>pusher := (\<lambda>f. ([], Some (Err ''unauthorized'')))\<rparr>"


section \<open>Properties of the migration engine\<close>

lemmas semver_defs = semver_New_def splitOff_def validateIdentifier_def identifier_char_def
  parse_int64_def digit_val_def release_def

lemma semver_0_19_0: "semver_New ''0.19.0'' = Some (release 0 19 0)"
  by (simp add: semver_defs)

lemma semver_0_23_0: "semver_New ''0.23.0'' = Some (release 0 23 0)"
  by (simp add: semver_defs)

lemma semver_1_0_0: "semver_New ''1.0.0'' = Some (release 1 0 0)"
  by (simp add: semver_defs)

lemma semver_0_0_0: "semver_New ''0.0.0'' = Some (release 0 0 0)"
  by (simp add: semver_defs)

lemma semver_New_empty: "semver_New [] = None"
  by (simp add: semver_defs)

lemma run_migrator_ok: "run_migrator k env f m = (f', None) \<Longrightarrow> Version f' = fst m"
  by (cases k) (auto simp: migrateToCreationStamp_def migrateToBuilderImages_def
      migrateTo100Structure_def Let_def split: sum.splits if_splits)

lemma run_migrator_err: "run_migrator k env f m = (f', Some e) \<Longrightarrow> f' = f"
  by (cases k) (auto simp: migrateToCreationStamp_def migrateToBuilderImages_def
      migrateTo100Structure_def Let_def split: sum.splits if_splits)

subsection \<open>The order of versions\<close>

lemma recursiveCompare_less:
  "recursiveCompare [a, b, c] [x, y, z] < 0 \<longleftrightarrow>
     a < x \<or> (a = x \<and> (b < y \<or> (b = y \<and> c < z)))"
  by auto

lemma recursiveCompare_zero:
  "recursiveCompare [a, b, c] [x, y, z] = 0 \<longleftrightarrow> a = x \<and> b = y \<and> c = z"
  by auto

lemma recursivePreReleaseCompare_refl: "recursivePreReleaseCompare xs xs = 0"
  by (induction xs) auto

lemma preReleaseCompare_refl: "preReleaseCompare a a = 0"
  by (simp add: preReleaseCompare_def recursivePreReleaseCompare_refl)

lemma LessThan_irrefl: "\<not> LessThan a a"
  by (simp add: LessThan_def Compare_def preReleaseCompare_refl)

text \<open>Against a version with no pre-release, only the numbers and the presence of a
  pre-release on the other side count.\<close>

lemma LessThan_release_right:
  assumes "PreRelease t = []"
  shows "LessThan v t \<longleftrightarrow>
           recursiveCompare [Major v, Minor v, Patch v] [Major t, Minor t, Patch t] < 0 \<or>
           (Major v = Major t \<and> Minor v = Minor t \<and> Patch v = Patch t \<and> PreRelease v \<noteq> [])"
proof (cases "recursiveCompare [Major v, Minor v, Patch v] [Major t, Minor t, Patch t] = 0")
  case True
  then have eq: "Major v = Major t \<and> Minor v = Minor t \<and> Patch v = Patch t"
    by (simp only: recursiveCompare_zero)
  from True assms have "Compare v t = (if PreRelease v \<noteq> [] then - 1 else 0)"
    by (cases "PreRelease v = []")
       (simp_all add: Compare_def preReleaseCompare_def recursivePreReleaseCompare_refl)
  with True eq show ?thesis by (simp add: LessThan_def)
next
  case False
  then have "Compare v t =
      recursiveCompare [Major v, Minor v, Patch v] [Major t, Minor t, Patch t]"
    by (simp add: Compare_def)
  moreover from False have "\<not> (Major v = Major t \<and> Minor v = Minor t \<and> Patch v = Patch t)"
    by (simp only: recursiveCompare_zero) simp
  ultimately show ?thesis by (auto simp: LessThan_def)
qed

lemma not_LessThan_general:
  "\<not> LessThan a b \<longleftrightarrow>
     \<not> recursiveCompare [Major a, Minor a, Patch a] [Major b, Minor b, Patch b] < 0 \<and>
     \<not> (Major a = Major b \<and> Minor a = Minor b \<and> Patch a = Patch b \<and>
        preReleaseCompare a b < 0)"
proof (cases "recursiveCompare [Major a, Minor a, Patch a] [Major b, Minor b, Patch b] = 0")
  case True
  then have eq: "Major a = Major b \<and> Minor a = Minor b \<and> Patch a = Patch b"
    by (simp only: recursiveCompare_zero)
  from True have "Compare a b = preReleaseCompare a b" by (simp add: Compare_def)
  with True eq show ?thesis by (simp add: LessThan_def)
next
  case False
  then have "Compare a b =
      recursiveCompare [Major a, Minor a, Patch a] [Major b, Minor b, Patch b]"
    by (simp add: Compare_def)
  moreover from False have "\<not> (Major a = Major b \<and> Minor a = Minor b \<and> Patch a = Patch b)"
    by (simp only: recursiveCompare_zero) simp
  ultimately show ?thesis by (auto simp: LessThan_def)
qed

lemma not_less_above_threshold:
  assumes "PreRelease t = []" and "\<not> LessThan v t" and "\<not> LessThan v' v"
  shows "\<not> LessThan v' t"
proof -
  from assms(2) have 1:
    "\<not> recursiveCompare [Major v, Minor v, Patch v] [Major t, Minor t, Patch t] < 0"
    "\<not> (Major v = Major t \<and> Minor v = Minor t \<and> Patch v = Patch t \<and> PreRelease v \<noteq> [])"
    by (simp_all add: LessThan_release_right [OF assms(1)])
  from assms(3) have 2:
    "\<not> recursiveCompare [Major v', Minor v', Patch v'] [Major v, Minor v, Patch v] < 0"
    "\<not> (Major v' = Major v \<and> Minor v' = Minor v \<and> Patch v' = Patch v \<and>
        preReleaseCompare v' v < 0)"
    by (simp_all add: not_LessThan_general)
  have 3: "\<not> recursiveCompare [Major v', Minor v', Patch v'] [Major t, Minor t, Patch t] < 0"
    using 1(1) 2(1) unfolding recursiveCompare_less by auto
  have 4: "\<not> (Major v' = Major t \<and> Minor v' = Minor t \<and> Patch v' = Patch t \<and>
               PreRelease v' \<noteq> [])"
  proof
    assume h: "Major v' = Major t \<and> Minor v' = Minor t \<and> Patch v' = Patch t \<and>
               PreRelease v' \<noteq> []"
    with 1(1) 2(1) have e: "Major v = Major t \<and> Minor v = Minor t \<and> Patch v = Patch t"
      unfolding recursiveCompare_less by auto
    with 1(2) have "PreRelease v = []" by simp
    with h have "preReleaseCompare v' v < 0" by (simp add: preReleaseCompare_def)
    with 2(2) h e show False by simp
  qed
  from 3 4 show ?thesis by (simp add: LessThan_release_right [OF assms(1)])
qed

lemma not_less_after_step:
  assumes "PreRelease t = []" and "LessThan v t" and "\<not> LessThan v' t"
  shows "\<not> LessThan v' v"
proof -
  from assms(2) have 1:
    "recursiveCompare [Major v, Minor v, Patch v] [Major t, Minor t, Patch t] < 0 \<or>
     (Major v = Major t \<and> Minor v = Minor t \<and> Patch v = Patch t \<and> PreRelease v \<noteq> [])"
    by (simp add: LessThan_release_right [OF assms(1)])
  from assms(3) have 2:
    "\<not> recursiveCompare [Major v', Minor v', Patch v'] [Major t, Minor t, Patch t] < 0"
    "\<not> (Major v' = Major t \<and> Minor v' = Minor t \<and> Patch v' = Patch t \<and> PreRelease v' \<noteq> [])"
    by (simp_all add: LessThan_release_right [OF assms(1)])
  have 3: "\<not> recursiveCompare [Major v', Minor v', Patch v'] [Major v, Minor v, Patch v] < 0"
    using 1 2(1) unfolding recursiveCompare_less by auto
  have 4: "\<not> (Major v' = Major v \<and> Minor v' = Minor v \<and> Patch v' = Patch v \<and>
               preReleaseCompare v' v < 0)"
  proof
    assume h: "Major v' = Major v \<and> Minor v' = Minor v \<and> Patch v' = Patch v \<and>
               preReleaseCompare v' v < 0"
    with 1 2(1) have e: "Major v = Major t \<and> Minor v = Minor t \<and> Patch v = Patch t \<and>
                         PreRelease v \<noteq> []"
      unfolding recursiveCompare_less by auto
    with h 2(2) have "PreRelease v' = []" by simp
    with e have "preReleaseCompare v' v = 1" by (simp add: preReleaseCompare_def)
    with h show False by simp
  qed
  from 3 4 show ?thesis by (simp add: not_LessThan_general)
qed

lemma not_less_lower_release:
  assumes "\<not> LessThan v (release 1 0 0)"
  shows "\<not> LessThan v (release 0 19 0) \<and> \<not> LessThan v (release 0 23 0)"
proof -
  have p: "PreRelease (release 1 0 0) = []" "PreRelease (release 0 19 0) = []"
    "PreRelease (release 0 23 0) = []"
    by (simp_all add: release_def)
  from assms show ?thesis
    unfolding LessThan_release_right [OF p(1)] LessThan_release_right [OF p(2)]
      LessThan_release_right [OF p(3)] recursiveCompare_less
    by (auto simp: release_def)
qed

subsection \<open>The loop and the early return\<close>

lemma ascending_registry: "ascending migrations = migrations"
proof -
  have "LessThan (release 0 19 0) (release 0 23 0)" "LessThan (release 0 23 0) (release 1 0 0)"
    by (simp_all add: LessThan_def Compare_def release_def)
  then show ?thesis
    by (simp add: ascending_def migrations_def threshold_less_def semver_0_19_0
        semver_0_23_0 semver_1_0_0)
qed

lemma loop_eq_steps: "migrate_loop env ms f = spec_steps env ms f"
proof (induction ms arbitrary: f)
  case Nil
  show ?case by simp
next
  case (Cons m ms)
  show ?case
  proof (cases "semver_New (Version f)")
    case None
    then show ?thesis by simp
  next
    case (Some v)
    note v = this
    show ?thesis
    proof (cases "semver_New (fst m)")
      case None
      with v show ?thesis by simp
    next
      case (Some t)
      show ?thesis
      proof (cases "LessThan v t")
        case False
        with v Some Cons.IH show ?thesis by simp
      next
        case True
        obtain f' r where r: "run_migrator (snd m) env f m = (f', r)"
          by (cases "run_migrator (snd m) env f m")
        show ?thesis
        proof (cases r)
          case None
          with r have "Version f' = fst m" by (simp add: run_migrator_ok)
          then have "f'\<lparr>Version := fst m\<rparr> = f'" by simp
          with v Some True r None Cons.IH show ?thesis by simp
        next
          case (Some e)
          with r have "f' = f" by (simp add: run_migrator_err)
          with v \<open>semver_New (fst m) = Some t\<close> True r Some show ?thesis by simp
        qed
      qed
    qed
  qed
qed

lemma Migrated_True_steps:
  assumes "Migrated f = Some True"
  shows "migrate_loop env migrations f = Some (f, None)"
proof -
  from assms obtain v where v: "semver_New (Version f) = Some v"
    and nl: "\<not> LessThan v (release 1 0 0)"
    by (auto simp: Migrated_def migrations_def semver_1_0_0 split: if_splits option.splits)
  from not_less_lower_release [OF nl] v nl show ?thesis
    by (simp add: migrations_def semver_0_19_0 semver_0_23_0 semver_1_0_0)
qed

lemma Migrated_None_steps:
  assumes "Migrated f = None"
  shows "migrate_loop env migrations f = None \<and> Version f \<noteq> []"
  using assms
  by (auto simp: Migrated_def migrations_def semver_1_0_0 split: if_splits option.splits)

text \<open>
  C3.  \<open>Migrate\<close> does what the specification describes: on every Function and
  whatever the legacy reads return, it gives the result of going through the registry
  in ascending order of threshold, applying a transformation exactly when the threshold
  is strictly greater than the current version (an empty version read as \<open>0.0.0\<close>
  and looked at again at each step), leaving the version at exactly the threshold after
  each applied step, and stopping at the first transformation error with the Function
  as migrated so far and that error.  The early return for an already migrated
  Function changes nothing in this.
\<close>

theorem Migrate_refines_spec: "Migrate env f = spec_migrate env f"
proof (cases "Migrated f")
  case None
  then show ?thesis
    using Migrated_None_steps [of f env]
    by (simp add: Migrate_def spec_migrate_def ascending_registry loop_eq_steps)
next
  case (Some b)
  show ?thesis
  proof (cases b)
    case True
    with Some have nz: "Version f \<noteq> []"
      by (auto simp: Migrated_def split: if_splits)
    from True Some Migrated_True_steps [of f env] nz show ?thesis
      by (simp add: Migrate_def spec_migrate_def ascending_registry loop_eq_steps)
  next
    case False
    with Some show ?thesis
      by (simp add: Migrate_def spec_migrate_def ascending_registry loop_eq_steps
          DefaultVersion_def)
  qed
qed

lemmas sample_migration_defs =
  Migrate_def Migrated_def migrations_def semver_defs LessThan_def Compare_def
  preReleaseCompare_def DefaultVersion_def
  sample_menv_def failing_menv_def sample_function_def sample_migrated_def
  sample_previous100_def migrateToBuilderImages_def migrateTo100Structure_def
  migrateToCreationStamp_def defaultPackBuilderImage_def

theorem Migrate_refines_spec_witness:
  "spec_migrate failing_menv (sample_function []) =
     Some ((sample_function ''0.19.0'')\<lparr>Created := 1000\<rparr>, Some (Err ''unreadable'')) \<and>
   spec_migrate sample_menv (sample_function ''1.0.0-rc1'') =
     Some (sample_migrated\<lparr>Created := 0\<rparr>, None) \<and>
   spec_migrate sample_menv (sample_function ''1.0.0+build.7'') =
     Some (sample_function ''1.0.0+build.7'', None)"
proof -
  have "Migrate failing_menv (sample_function []) =
     Some ((sample_function ''0.19.0'')\<lparr>Created := 1000\<rparr>, Some (Err ''unreadable''))"
    by (simp add: sample_migration_defs)
  moreover have "Migrate sample_menv (sample_function ''1.0.0-rc1'') =
     Some (sample_migrated\<lparr>Created := 0\<rparr>, None)"
    by (simp add: sample_migration_defs)
  moreover have "Migrate sample_menv (sample_function ''1.0.0+build.7'') =
     Some (sample_function ''1.0.0+build.7'', None)"
    by (simp add: sample_migration_defs)
  ultimately show ?thesis by (simp only: Migrate_refines_spec)
qed

lemma migrate_loop_version:
  assumes "migrate_loop env ms f = Some (f', None)" and "semver_New (Version f) = Some v"
    and "\<forall>m \<in> set ms. \<forall>t. semver_New (fst m) = Some t \<longrightarrow> PreRelease t = []"
  shows "\<exists>v'. semver_New (Version f') = Some v' \<and> \<not> LessThan v' v \<and>
           (\<forall>m \<in> set ms. \<forall>t. semver_New (fst m) = Some t \<longrightarrow> \<not> LessThan v' t)"
  using assms
proof (induction ms arbitrary: f v)
  case Nil
  then show ?case by (simp add: LessThan_irrefl)
next
  case (Cons m ms)
  from Cons.prems obtain t where t: "semver_New (fst m) = Some t"
    by (auto split: option.splits)
  with Cons.prems(3) have pt: "PreRelease t = []" by simp
  from Cons.prems(3) have rest:
    "\<forall>m \<in> set ms. \<forall>t. semver_New (fst m) = Some t \<longrightarrow> PreRelease t = []"
    by simp
  show ?case
  proof (cases "LessThan v t")
    case False
    with Cons.prems t have "migrate_loop env ms f = Some (f', None)" by simp
    from Cons.IH [OF this Cons.prems(2) rest] obtain v' where
      v': "semver_New (Version f') = Some v'" "\<not> LessThan v' v"
        "\<forall>m \<in> set ms. \<forall>t. semver_New (fst m) = Some t \<longrightarrow> \<not> LessThan v' t"
      by blast
    from pt False v'(2) have "\<not> LessThan v' t" by (rule not_less_above_threshold)
    with v' t show ?thesis by auto
  next
    case True
    obtain f1 r where r: "run_migrator (snd m) env f m = (f1, r)"
      by (cases "run_migrator (snd m) env f m")
    with Cons.prems t True have rn: "r = None" and l: "migrate_loop env ms f1 = Some (f', None)"
      by (auto split: option.splits)
    from r rn have "Version f1 = fst m" by (simp add: run_migrator_ok)
    with t have "semver_New (Version f1) = Some t" by simp
    from Cons.IH [OF l this rest] obtain v' where
      v': "semver_New (Version f') = Some v'" "\<not> LessThan v' t"
        "\<forall>m \<in> set ms. \<forall>t. semver_New (fst m) = Some t \<longrightarrow> \<not> LessThan v' t"
      by blast
    from pt True v'(2) have "\<not> LessThan v' v" by (rule not_less_after_step)
    with v' t show ?thesis by auto
  qed
qed

text \<open>
  C4.  Whenever \<open>Migrate\<close> succeeds on a Function (it returns, with no error), the
  version of the result is not less than the version the Function came with (an empty
  one read as \<open>0.0.0\<close>), and migrating the result again, whatever the legacy reads
  and the clock then are, returns that same result with no error: the chain with its
  version guard is idempotent, in the version and in every other field.
\<close>

theorem Migrate_monotone_stable:
  assumes "Migrate env f = Some (f', None)"
  shows "(\<exists>v v'. semver_New (effective_version f) = Some v \<and>
                 semver_New (Version f') = Some v' \<and> \<not> LessThan v' v) \<and>
         Migrate env2 f' = Some (f', None)"
proof (cases "Migrated f")
  case None
  with assms show ?thesis by (simp add: Migrate_def)
next
  case (Some b)
  show ?thesis
  proof (cases b)
    case True
    with Some assms have eq: "f' = f" by (simp add: Migrate_def)
    from True Some obtain v where "Version f \<noteq> []" "semver_New (Version f) = Some v"
      by (auto simp: Migrated_def split: if_splits option.splits)
    with eq True Some show ?thesis
      by (auto simp: effective_version_def Migrate_def LessThan_irrefl)
  next
    case False
    define g where "g = (if Version f = [] then f\<lparr>Version := DefaultVersion\<rparr> else f)"
    from False Some assms have l: "migrate_loop env migrations g = Some (f', None)"
      by (simp add: Migrate_def g_def)
    have gv: "Version g = effective_version f"
      by (simp add: g_def effective_version_def DefaultVersion_def)
    from l obtain v where v: "semver_New (Version g) = Some v"
      by (auto simp: migrations_def split: option.splits)
    have plain: "\<forall>m \<in> set migrations. \<forall>t. semver_New (fst m) = Some t \<longrightarrow> PreRelease t = []"
      by (simp add: migrations_def semver_0_19_0 semver_0_23_0 semver_1_0_0 release_def)
    from migrate_loop_version [OF l v plain] obtain v' where
      v': "semver_New (Version f') = Some v'" "\<not> LessThan v' v"
        "\<forall>m \<in> set migrations. \<forall>t. semver_New (fst m) = Some t \<longrightarrow> \<not> LessThan v' t"
      by blast
    from v'(3) have "\<not> LessThan v' (release 1 0 0)"
      by (simp add: migrations_def semver_1_0_0)
    moreover from v'(1) have "Version f' \<noteq> []"
      by (auto simp: semver_New_empty)
    ultimately have "Migrated f' = Some True" using v'(1)
      by (simp add: Migrated_def migrations_def semver_1_0_0)
    then have "Migrate env2 f' = Some (f', None)" by (simp add: Migrate_def)
    with v v' gv show ?thesis by auto
  qed
qed

theorem Migrate_monotone_stable_witness:
  "Migrate sample_menv (sample_function []) = Some (sample_migrated, None) \<and>
   Version sample_migrated = ''1.0.0'' \<and>
   Migrate failing_menv sample_migrated = Some (sample_migrated, None) \<and>
   Migrate sample_menv (sample_function ''1.0.0-rc1'') =
     Some (sample_migrated\<lparr>Created := 0\<rparr>, None) \<and>
   Migrate failing_menv (sample_migrated\<lparr>Created := 0\<rparr>) =
     Some (sample_migrated\<lparr>Created := 0\<rparr>, None)"
proof -
  have h: "Migrate sample_menv (sample_function []) = Some (sample_migrated, None)"
    by (simp add: sample_migration_defs)
  have k: "Migrate sample_menv (sample_function ''1.0.0-rc1'') =
     Some (sample_migrated\<lparr>Created := 0\<rparr>, None)"
    by (simp add: sample_migration_defs)
  have "Version sample_migrated = ''1.0.0''"
    by (simp add: sample_migrated_def sample_function_def)
  with h k Migrate_monotone_stable [OF h, of failing_menv]
    Migrate_monotone_stable [OF k, of failing_menv]
  show ?thesis by simp
qed

section \<open>Properties of the fingerprint\<close>

lemma walk_listing:
  "readable t \<Longrightarrow>
     walk path t h = (h @ concat (map entry_text (listing path t)),
                      if node_IsDir t \<and> skipped (node_name t) then Some SkipDir else None)"
  "\<forall>e \<in> set es. readable e \<Longrightarrow>
     walk_entries path es h =
       (h @ concat (map entry_text (concat (map (\<lambda>e. listing (Join [path, node_name e]) e) es))),
        None)"
proof (induction path t h and path es h rule: walk_walk_entries.induct)
  case (4 path n t es h)
  show ?case
  proof (cases "skipped n")
    case True
    then show ?thesis by (simp add: fingerprint_fn_def skipped_def RunDataDir_def)
  next
    case False
    with 4 show ?thesis
      by (simp add: fingerprint_fn_def skipped_def RunDataDir_def entry_text_def)
  qed
qed (auto simp: fingerprint_fn_def entry_text_def split: if_splits)

lemma round256_length: "length (round256 k w s) = length s"
  by (induction k w s rule: round256.induct) simp_all

lemma rounds_length:
  "length (rounds_w ks w ws s) = length s"
  "length (rounds ks ws blk s) = length s"
  by (induction ks w ws s and ks ws blk s rule: rounds_w_rounds.induct)
     (simp_all add: round256_length)

lemma compress_length: "length (compress s blk) = length s"
  by (simp add: compress_def rounds_length)

lemma sha_blocks_length: "length (sha_blocks s ws) = length s"
  by (induction s ws rule: sha_blocks.induct) (simp_all add: compress_length)

lemma concat_be_bytes4_length: "length (concat (map be_bytes4 ws)) = 4 * length ws"
  by (induction ws) (simp_all add: be_bytes4_def)

lemma sha256_length: "length (sha256 msg) = 32"
  by (simp add: sha256_def concat_be_bytes4_length sha_blocks_length H0_def)

lemma hex_encode_length: "length (hex_encode bs) = 2 * length bs"
  by (induction bs) (simp_all add: hex_encode_def)

lemma hex_digit_lower: "hex_digit d \<in> set ''0123456789abcdef''"
proof -
  have "d mod 16 < length ''0123456789abcdef''" by simp
  then show ?thesis unfolding hex_digit_def by (rule nth_mem)
qed

lemma hex_encode_lower: "set (hex_encode bs) \<subseteq> set ''0123456789abcdef''"
proof (induction bs)
  case Nil
  show ?case by (simp add: hex_encode_def)
next
  case (Cons b bs)
  from Cons hex_digit_lower [of "b div 16"] hex_digit_lower [of b] show ?case
    by (simp add: hex_encode_def)
qed

lemma fingerprint_text: "\<exists>h err. fingerprint f t = (hex_encode (sha256 h), err)"
  by (cases "filepath_Walk (Root f) t []") (auto simp: fingerprint_def)

lemma fingerprint_readable:
  assumes "readable t"
  shows "fingerprint f t =
           (hex_encode (sha256 (concat (map entry_text (listing (Root f) t)))), None)"
  using walk_listing(1) [OF assms, of "Root f" "[]"]
  by (simp add: fingerprint_def filepath_Walk_def)

lemma fingerprint_permuted:
  assumes "mset es = mset es'" and "distinct (map node_name es)"
  shows "fingerprint f (Dir n m es) = fingerprint f (Dir n m es')"
proof -
  from assms(2) have "inj_on node_name (set es)" by (simp add: distinct_map)
  with assms(1) have "sort_key node_name es = sort_key node_name es'"
    by (rule sort_key_eq_sort_key)
  then show ?thesis by (simp add: fingerprint_def filepath_Walk_def)
qed


lemmas sha_defs = add32_def rotr_def Ch_def Maj_def Sigma0_def Sigma1_def sigma0_def
  sigma1_def not32_def next_w_def compress_def H0_def K256_def sha_pad_def zeros64_def
  be_bytes4_def be_bytes8_def sha256_def hex_encode_def hex_digit_def

lemmas path_defs = Join_def Clean_def clean_step_def

lemmas walk_defs = fingerprint_def filepath_Walk_def fingerprint_fn_def path_defs
  RunDataDir_def show_int_def decimal.simps

lemma sha256_abc:
  "hex_encode (sha256 ''abc'') =
     ''ba7816bf8f01cfea414140de5dae2223b00361a396177a9cb410ff61f20015ad''"
  by (simp add: sha_defs)

lemma sample_walk:
  "filepath_Walk ''/p/demo'' sample_tree [] =
     (''/p/demo:5:/p/demo/func.yaml:6:/p/demo/main.go:7:'', None)"
  by (simp add: sample_tree_def walk_defs)

lemma sample_digest:
  "hex_encode (sha256 ''/p/demo:5:/p/demo/func.yaml:6:/p/demo/main.go:7:'') =
     ''88def8a74e565974677aa1f9b5da4cbaeb783c7becffd653bbcfbdb670da23f3''"
  by (simp add: sha_defs)

lemma sample_fingerprint:
  "Root f = ''/p/demo'' \<Longrightarrow>
   fingerprint f sample_tree =
     (''88def8a74e565974677aa1f9b5da4cbaeb783c7becffd653bbcfbdb670da23f3'', None)"
  by (simp add: fingerprint_def sample_walk sample_digest)

lemma digest_under_a:
  "fst (fingerprint ((sample_function [])\<lparr>Root := ''/a''\<rparr>) (Dir ''a'' 1 [File ''x'' 2])) =
     ''6a2cd063c999a3b2569e5a031b5b9fb6c0559f073f62b8cb821d02e2d59174e7''"
  by (simp add: walk_defs sample_function_def sha_defs)

lemma digest_under_b:
  "fst (fingerprint ((sample_function [])\<lparr>Root := ''/b''\<rparr>) (Dir ''b'' 1 [File ''x'' 2])) =
     ''eeda898db3a3c5fd846b4927e7e0a81c4bcd75b81f891ff6bf6dc8e289bc1ac4''"
  by (simp add: walk_defs sample_function_def sha_defs)

text \<open>
  C2, as the code has it.  The fingerprint is 64 lowercase hexadecimal digits, the
  SHA-256 digest of what the walk wrote.  Where the walk meets no error, what it wrote
  is determined by the listing of the tree from the Function's root: the pairs of path
  and modification time in nanoseconds of every entry outside the directories
  \<open>.func\<close> and \<open>.git\<close>, which are not descended into.  The paths are those
  that \<^verbatim>\<open>filepath.Walk\<close> reports: the root as the Function holds it for the root
  itself, and for an entry below it the cleaned join of the path of its directory and
  its name.  Below the root \<open>/a\<close> they begin with \<open>/a/\<close>; below the root
  \<open>.\<close> they are the paths relative to the root.  So two trees with the same
  listing have the same fingerprint, and the order in which a directory lists its entries
  does not matter.
\<close>

theorem fingerprint_of_listing:
  "length (fst (fingerprint f t)) = 64 \<and>
   set (fst (fingerprint f t)) \<subseteq> set ''0123456789abcdef'' \<and>
   (readable t \<longrightarrow>
      fingerprint f t =
        (hex_encode (sha256 (concat (map entry_text (listing (Root f) t)))), None)) \<and>
   (readable t \<and> readable t' \<and> listing (Root f) t = listing (Root f') t' \<longrightarrow>
      fingerprint f t = fingerprint f' t') \<and>
   (mset es = mset es' \<and> distinct (map node_name es) \<longrightarrow>
      fingerprint f (Dir n m es) = fingerprint f (Dir n m es'))"
proof -
  obtain h err where f: "fingerprint f t = (hex_encode (sha256 h), err)"
    using fingerprint_text by blast
  then have "length (fst (fingerprint f t)) = 64"
    by (simp add: hex_encode_length sha256_length)
  moreover from f have "set (fst (fingerprint f t)) \<subseteq> set ''0123456789abcdef''"
    using hex_encode_lower [of "sha256 h"] by simp
  ultimately show ?thesis
    using fingerprint_readable fingerprint_permuted by metis
qed


theorem fingerprint_of_listing_witness:
  "readable sample_tree \<and>
   fingerprint (sample_function []) sample_tree =
     (hex_encode (sha256 ''/p/demo:5:/p/demo/func.yaml:6:/p/demo/main.go:7:''), None) \<and>
   fingerprint (sample_function []) (Dir ''demo'' 5 [File ''b'' 2, File ''a'' 1]) =
     fingerprint (sample_function []) (Dir ''demo'' 5 [File ''a'' 1, File ''b'' 2]) \<and>
   listing ''/a'' (Dir ''a'' 1 [File ''x'' 2]) = [(''/a'', 1), (''/a/x'', 2)] \<and>
   listing ''a/'' (Dir ''a'' 1 [File ''x'' 2]) = [(''a/'', 1), (''a/x'', 2)] \<and>
   listing ''.'' (Dir ''a'' 1 [File ''x'' 2]) = [(''.'', 1), (''x'', 2)] \<and>
   filepath_Walk ''.'' (Dir ''a'' 1 [File ''x'' 2]) [] = (''.:1:x:2:'', None)"
proof -
  have p: "listing ''/a'' (Dir ''a'' 1 [File ''x'' 2]) = [(''/a'', 1), (''/a/x'', 2)]"
    "listing ''a/'' (Dir ''a'' 1 [File ''x'' 2]) = [(''a/'', 1), (''a/x'', 2)]"
    "listing ''.'' (Dir ''a'' 1 [File ''x'' 2]) = [(''.'', 1), (''x'', 2)]"
    "filepath_Walk ''.'' (Dir ''a'' 1 [File ''x'' 2]) [] = (''.:1:x:2:'', None)"
    by (simp_all add: skipped_def walk_defs)
  have r: "readable sample_tree"
    by (simp add: sample_tree_def skipped_def)
  have l: "concat (map entry_text (listing (Root (sample_function [])) sample_tree)) =
             ''/p/demo:5:/p/demo/func.yaml:6:/p/demo/main.go:7:''"
    by (simp add: sample_tree_def sample_function_def skipped_def entry_text_def path_defs
        show_int_def decimal.simps)
  have m: "mset [File ''b'' 2, File ''a'' 1] = mset [File ''a'' 1, File ''b'' 2] \<and>
           distinct (map node_name [File ''b'' 2, File ''a'' 1])"
    by simp
  from fingerprint_of_listing
         [of "sample_function []" sample_tree sample_tree "sample_function []"
             "[File ''b'' 2, File ''a'' 1]" "[File ''a'' 1, File ''b'' 2]" "''demo''" 5]
       r l m p
  show ?thesis by simp
qed

text \<open>
  The claim as it stands fails: two project trees with the same paths relative to the
  root and the same modification times, one at \<open>/a\<close> and one at \<open>/b\<close>,
  have different fingerprints.
\<close>

theorem fingerprint_relative_counterexample:
  "listing ''.'' (Dir ''a'' 1 [File ''x'' 2]) = listing ''.'' (Dir ''b'' 1 [File ''x'' 2]) \<and>
   fst (fingerprint ((sample_function [])\<lparr>Root := ''/a''\<rparr>) (Dir ''a'' 1 [File ''x'' 2])) \<noteq>
   fst (fingerprint ((sample_function [])\<lparr>Root := ''/b''\<rparr>) (Dir ''b'' 1 [File ''x'' 2]))"
  by (simp add: digest_under_a digest_under_b skipped_def)



section \<open>Properties of the client\<close>

lemmas sample_defs = sample_platform_def sample_client_def refused_client_def
  sample_load_def sample_save_def sample_function_def sample_cfg_def empty_fs_def
  fresh_world_def built_fs_def created_fs_def os_MkdirAll_def os_WriteFile_def
  os_ReadFile_def os_Stat_def on_fs_def HasImage_def path_defs RunDataDir_def
  buildstamp_def

subsection \<open>The heartbeat in the record\<close>

lemma own_append: "own (xs @ ys) = own xs @ own ys"
  by (simp add: own_def)

lemma beat_message_heartbeat: "is_heartbeat (Increment (beat_messages ! (i mod 6)))"
proof -
  have "length beat_messages = 6" by (simp add: beat_messages_def)
  then have "i mod 6 < length beat_messages" by simp
  then have "beat_messages ! (i mod 6) \<in> set beat_messages" by (rule nth_mem)
  then show ?thesis by simp
qed

lemma fire_fs: "fs (fire w gs) = fs w"
  by (induction gs arbitrary: w) simp_all

lemma fire_events: "\<exists>hs. events (fire w gs) = events w @ hs \<and> own hs = []"
proof (induction gs arbitrary: w)
  case Nil
  show ?case by (simp add: own_def)
next
  case (Cons g gs)
  show ?case
  proof (cases "g < length (tickers w)")
    case False
    with Cons [of w] show ?thesis by simp
  next
    case True
    let ?h = "Increment (beat_messages ! (tickers w ! g mod 6))"
    let ?w = "w\<lparr>events := events w @ [?h],
                 tickers := (tickers w)[g := (tickers w ! g + 1) mod 6]\<rparr>"
    from Cons [of ?w] obtain hs where
      hs: "events (fire ?w gs) = events ?w @ hs" "own hs = []" by blast
    have "own [?h] = []" using beat_message_heartbeat by (simp add: own_def)
    with hs have "events (fire w (g # gs)) = events w @ (?h # hs) \<and> own (?h # hs) = []"
      using True own_append [of "[?h]" hs] by simp
    then show ?thesis by blast
  qed
qed

lemma beat_fs: "fs (beat p w) = fs w"
  by (simp add: beat_def fire_fs)

lemma beat_events: "\<exists>hs. events (beat p w) = events w @ hs \<and> own hs = []"
  by (simp add: beat_def fire_events)

lemma emit_fs: "fs (emit p e w) = fs w"
  by (simp add: emit_def beat_fs log_event_def)

lemma printBuildActivity_fs: "fs (printBuildActivity w) = fs w"
  by (simp add: printBuildActivity_def)

lemma printBuildActivity_events: "events (printBuildActivity w) = events w"
  by (simp add: printBuildActivity_def)

lemma emit_events: "\<exists>xs. events (emit p e w) = events w @ xs \<and> own xs = own [e]"
proof -
  obtain hs where hs: "events (beat p w) = events w @ hs" "own hs = []"
    using beat_events by blast
  obtain hs' where hs':
    "events (beat p (log_event e (beat p w))) = events (log_event e (beat p w)) @ hs'"
    "own hs' = []"
    using beat_events by blast
  from hs hs' have "events (emit p e w) = events w @ (hs @ e # hs')"
    by (simp add: emit_def log_event_def)
  moreover from hs(2) hs'(2) have "own (hs @ e # hs') = own [e]"
    using own_append [of hs "e # hs'"] own_append [of "[e]" hs'] by simp
  ultimately show ?thesis by blast
qed

text \<open>A report of the client's own, made after the record has grown by \<open>xs\<close>.\<close>

lemma emit_ext:
  assumes "\<not> is_heartbeat e" and "events w1 = events w @ xs" and "own xs = a"
  shows "\<exists>zs. events (emit p e w1) = events w @ zs \<and> own zs = a @ [e]"
proof -
  from emit_events obtain ys where
    ys: "events (emit p e w1) = events w1 @ ys" "own ys = own [e]" by blast
  from assms(1) have "own [e] = [e]" by (simp add: own_def)
  with ys assms(2,3) have "events (emit p e w1) = events w @ (xs @ ys) \<and> own (xs @ ys) = a @ [e]"
    by (simp add: own_append)
  then show ?thesis by blast
qed

lemma heartbeat_called: "is_heartbeat e \<Longrightarrow> called e = None"
  by (cases e) simp_all

lemma calls_own: "calls (own xs) = calls xs"
  by (induction xs) (auto simp: own_def heartbeat_called split: option.splits)

lemma call_events_own: "call_events (own xs) = call_events xs"
  by (induction xs) (auto simp: own_def call_events_def heartbeat_called)

lemma announcements_own:
  "filter (\<lambda>e. e \<in> set New_announcements) (own xs) =
   filter (\<lambda>e. e \<in> set New_announcements) xs"
  by (induction xs) (auto simp: own_def New_announcements_def beat_messages_def)

lemma Complete_own: "Complete m \<in> set (own xs) \<longleftrightarrow> Complete m \<in> set xs"
  by (auto simp: own_def)

lemma via_own:
  assumes "own xs = ys"
  shows "calls xs = calls ys" and "call_events xs = call_events ys"
    and "filter (\<lambda>e. e \<in> set New_announcements) xs =
         filter (\<lambda>e. e \<in> set New_announcements) ys"
    and "Complete m \<in> set xs \<longleftrightarrow> Complete m \<in> set ys"
  using assms calls_own [of xs] call_events_own [of xs] announcements_own [of xs]
    Complete_own [of m xs]
  by simp_all

subsection \<open>Built\<close>



subsection \<open>Push and Deploy\<close>



text \<open>
  C9.  When the Function at the path has an image and the pusher returns an error,
  \<open>Push\<close> returns that error and the file system is as it was: the descriptor is not
  written.  When the pusher returns a digest and no error, \<open>Push\<close> is the writing
  of the Function with that digest.
\<close>

theorem Push_pusher_error:
  assumes "NewFunction p (fs w) path = Inr f" and "HasImage f"
  shows "(pusher c f = (d, Some e) \<longrightarrow>
            Push c p w path = (emit p (CallPush f) w, Some e) \<and>
            fs (fst (Push c p w path)) = fs w) \<and>
         (pusher c f = (d, None) \<longrightarrow>
            Push c p w path =
              on_fs (\<lambda>s. Write p s (f\<lparr>ImageDigest := d\<rparr>)) (emit p (CallPush f) w))"
  using assms by (simp add: Push_def emit_fs)

theorem Push_pusher_error_witness:
  "snd (Push refused_client sample_platform \<lparr>fs = built_fs, events = [], tickers = [0]\<rparr>
          ''/p/demo'') = Some (Err ''unauthorized'') \<and>
   fs (fst (Push refused_client sample_platform \<lparr>fs = built_fs, events = [], tickers = [0]\<rparr>
          ''/p/demo'')) = built_fs \<and>
   files (fs (fst (Push sample_client sample_platform
                     \<lparr>fs = built_fs, events = [], tickers = [0]\<rparr> ''/p/demo'')))
     ''/p/demo/func.yaml'' = Some ''example.com/alice/demo:latest@sha256:abc''"
proof -
  let ?w = "\<lparr>fs = built_fs, events = [], tickers = [0]\<rparr>"
  let ?f = "(sample_function ''1.0.0'')\<lparr>Root := ''/p/demo'', Created := 1000,
              Image := ''example.com/alice/demo:latest'', ImageDigest := []\<rparr>"
  have l: "NewFunction sample_platform (fs ?w) ''/p/demo'' = Inr ?f"
    by (simp add: sample_defs)
  have i: "HasImage ?f" by (simp add: HasImage_def)
  have bad: "pusher refused_client ?f = ([], Some (Err ''unauthorized''))"
    by (simp add: sample_defs)
  have good: "pusher sample_client ?f = (''sha256:abc'', None)"
    by (simp add: sample_defs)
  from Push_pusher_error [OF l i, of refused_client "[]" "Err ''unauthorized''"] bad
  have 1: "snd (Push refused_client sample_platform ?w ''/p/demo'') = Some (Err ''unauthorized'')"
    and 2: "fs (fst (Push refused_client sample_platform ?w ''/p/demo'')) = built_fs"
    by (simp_all add: emit_fs)
  from Push_pusher_error [OF l i, of sample_client "''sha256:abc''"] good
  have "Push sample_client sample_platform ?w ''/p/demo'' =
          on_fs (\<lambda>s. Write sample_platform s (?f\<lparr>ImageDigest := ''sha256:abc''\<rparr>))
            (emit sample_platform (CallPush ?f) ?w)"
    by simp
  then have 3: "files (fs (fst (Push sample_client sample_platform ?w ''/p/demo'')))
     ''/p/demo/func.yaml'' = Some ''example.com/alice/demo:latest@sha256:abc''"
    by (simp add: sample_defs emit_fs)
  from 1 2 3 show ?thesis by simp
qed

subsection \<open>Remove\<close>

lemma Remove_record:
  assumes "Name cfg \<noteq> [] \<and> name = Name cfg \<and> target = cfg \<or>
           Name cfg = [] \<and> NewFunction p (fs w) (Root cfg) = Inr target \<and>
             Initialized p target \<and> name = Name target"
  shows "\<exists>xs. events (fst (Remove c p w cfg True)) = events w @ xs \<and>
           call_events xs = [CallRemove name, CallPipelinesRemove target]"
proof -
  let ?I1 = "Increment (''Removing Knative Service: '' @ name)"
  let ?I2 = "Increment (''Removing Knative Service '' @ [CHR 0x27] @ name
                           @ [CHR 0x27] @ '' and all dependent resources'')"
  let ?w4 = "emit p (CallPipelinesRemove target) (emit p ?I2 (emit p (CallRemove name)
               (emit p ?I1 w)))"
  from assms have w': "fst (Remove c p w cfg True) = ?w4"
    by (auto simp: Remove_def Let_def split: option.splits prod.splits)
  have n1: "\<not> is_heartbeat ?I1" by (simp add: beat_messages_def)
  have n2: "\<not> is_heartbeat ?I2" by (simp add: beat_messages_def)
  have n3: "\<not> is_heartbeat (CallRemove name)" by simp
  have n4: "\<not> is_heartbeat (CallPipelinesRemove target)" by simp
  have b: "events w = events w @ []" "own [] = []" by (simp_all add: own_def)
  from emit_ext [OF n1 b] obtain x1 where
    x1: "events (emit p ?I1 w) = events w @ x1" "own x1 = [] @ [?I1]" by blast
  from emit_ext [OF n3 x1] obtain x2 where
    x2: "events (emit p (CallRemove name) (emit p ?I1 w)) = events w @ x2"
        "own x2 = ([] @ [?I1]) @ [CallRemove name]"
    by blast
  from emit_ext [OF n2 x2] obtain x3 where
    x3: "events (emit p ?I2 (emit p (CallRemove name) (emit p ?I1 w))) = events w @ x3"
        "own x3 = (([] @ [?I1]) @ [CallRemove name]) @ [?I2]" by blast
  from emit_ext [OF n4 x3] obtain x4 where
    x4: "events ?w4 = events w @ x4"
        "own x4 = ((([] @ [?I1]) @ [CallRemove name]) @ [?I2]) @ [CallPipelinesRemove target]"
    by blast
  from via_own(2) [OF x4(2)]
  have "call_events x4 = [CallRemove name, CallPipelinesRemove target]"
    by (simp add: call_events_def)
  with x4(1) w' show ?thesis by auto
qed

text \<open>
  C6.  Once \<open>Remove\<close> knows the name to remove (the name given, or the name of the
  initialized Function loaded from the root), with \<open>deleteAll\<close> set it calls the
  remover and the pipelines provider both and returns: when both fail, one error whose
  message is the service error's message, a line break, and the pipeline error's
  message; when one fails, that error as it is; no error only when neither fails.
  Without \<open>deleteAll\<close> it returns what the remover returns.
\<close>

theorem Remove_errors:
  assumes "Name cfg \<noteq> [] \<and> name = Name cfg \<and> target = cfg \<or>
           Name cfg = [] \<and> NewFunction p (fs w) (Root cfg) = Inr target \<and>
             Initialized p target \<and> name = Name target"
  shows "snd (Remove c p w cfg True) =
          (case (remover c name, pipelinesRemove c target) of
             (Some a, Some b) \<Rightarrow> Some (Err (error_msg a @ [CHR 0x0A] @ error_msg b))
           | (Some a, None) \<Rightarrow> Some a
           | (None, Some b) \<Rightarrow> Some b
           | (None, None) \<Rightarrow> None) \<and>
         call_events (drop (length (events w)) (events (fst (Remove c p w cfg True)))) =
           [CallRemove name, CallPipelinesRemove target] \<and>
         snd (Remove c p w cfg False) = remover c name"
proof -
  from assms have 1: "snd (Remove c p w cfg True) =
          (case (remover c name, pipelinesRemove c target) of
             (Some a, Some b) \<Rightarrow> Some (Err (error_msg a @ [CHR 0x0A] @ error_msg b))
           | (Some a, None) \<Rightarrow> Some a
           | (None, Some b) \<Rightarrow> Some b
           | (None, None) \<Rightarrow> None)"
    by (auto simp: Remove_def Let_def split: option.splits prod.splits)
  from assms have 3: "snd (Remove c p w cfg False) = remover c name"
    by (auto simp: Remove_def Let_def split: option.splits prod.splits)
  from Remove_record [OF assms, of c] obtain xs where
    "events (fst (Remove c p w cfg True)) = events w @ xs"
    "call_events xs = [CallRemove name, CallPipelinesRemove target]" by blast
  then have 2: "call_events (drop (length (events w)) (events (fst (Remove c p w cfg True)))) =
           [CallRemove name, CallPipelinesRemove target]" by simp
  from 1 2 3 show ?thesis by simp
qed

theorem Remove_errors_witness:
  "snd (Remove sample_client sample_platform fresh_world (sample_function []) True) =
     Some (Err (''service not found'' @ [CHR 0x0A] @ ''pipeline not found'')) \<and>
   snd (Remove (sample_client\<lparr>pipelinesRemove := (\<lambda>f. None)\<rparr>) sample_platform fresh_world
          (sample_function []) True) = Some (Err ''service not found'') \<and>
   snd (Remove (sample_client\<lparr>remover := (\<lambda>n. None)\<rparr>) sample_platform fresh_world
          (sample_function []) True) = Some (Err ''pipeline not found'') \<and>
   snd (Remove (sample_client\<lparr>remover := (\<lambda>n. None), pipelinesRemove := (\<lambda>f. None)\<rparr>)
          sample_platform fresh_world (sample_function []) True) = None"
proof -
  have a: "Name (sample_function []) \<noteq> [] \<and> ''demo'' = Name (sample_function []) \<and>
           sample_function [] = sample_function [] \<or>
           Name (sample_function []) = [] \<and>
           NewFunction sample_platform (fs fresh_world) (Root (sample_function [])) =
             Inr (sample_function []) \<and>
           Initialized sample_platform (sample_function []) \<and>
           ''demo'' = Name (sample_function [])"
    by (simp add: sample_function_def)
  from Remove_errors [OF a, of sample_client]
       Remove_errors [OF a, of "sample_client\<lparr>pipelinesRemove := (\<lambda>f. None)\<rparr>"]
       Remove_errors [OF a, of "sample_client\<lparr>remover := (\<lambda>n. None)\<rparr>"]
       Remove_errors [OF a, of "sample_client\<lparr>remover := (\<lambda>n. None),
                                  pipelinesRemove := (\<lambda>f. None)\<rparr>"]
  show ?thesis by (simp add: sample_client_def)
qed

subsection \<open>Create\<close>

lemma os_MkdirAll_files: "files (fst (os_MkdirAll p s path)) = files s"
  by (simp add: os_MkdirAll_def split: option.splits)

text \<open>
  C8.  When a Function is already initialized at the root (the absolute form of the
  root given), \<open>Create\<close> returns an error and every file is as it was: no template
  file, no descriptor and no ignore file has been written.
\<close>

theorem Create_initialized:
  assumes "filepath_Abs p (Root cfg) = Inr root"
    and "hasInitializedFunction p (fst (os_MkdirAll p s root)) root = Inr True"
  shows "snd (Create p s cfg) \<noteq> None \<and> files (fst (Create p s cfg)) = files s"
proof (cases "os_MkdirAll p s root")
  case (Pair s1 r)
  show ?thesis
  proof (cases r)
    case None
    with Pair assms os_MkdirAll_files [of p s root] show ?thesis
      by (simp add: Create_def)
  next
    case (Some e)
    with Pair assms os_MkdirAll_files [of p s root] show ?thesis
      by (simp add: Create_def)
  qed
qed

theorem Create_initialized_witness:
  "snd (Create sample_platform created_fs sample_cfg) =
     Some (Err ''Function at '/p/demo' already initialized'') \<and>
   files (fst (Create sample_platform created_fs sample_cfg)) = files created_fs"
proof -
  have a: "filepath_Abs sample_platform (Root sample_cfg) = Inr ''/p/demo''"
    by (simp add: sample_defs)
  have b: "hasInitializedFunction sample_platform
             (fst (os_MkdirAll sample_platform created_fs ''/p/demo'')) ''/p/demo'' = Inr True"
    by (simp add: sample_defs)
  have "snd (Create sample_platform created_fs sample_cfg) =
          Some (Err ''Function at '/p/demo' already initialized'')"
    by (simp add: Create_def sample_defs)
  with Create_initialized [OF a b] show ?thesis by simp
qed

subsection \<open>The ignore file\<close>














subsection \<open>New\<close>

lemma on_fs_events: "on_fs op w = (w', r) \<Longrightarrow> events w' = events w"
  by (auto simp: on_fs_def split: prod.splits)

lemma Build_op_res:
  assumes "Build_op c p w1 path = (w', r)" and "events w1 = events w @ xs" and "own xs = a"
  shows "\<exists>zs. events w' = events w @ zs \<and>
          ((own zs = a @ [Increment ''Building function image''] \<and> r \<noteq> None) \<or>
           (\<exists>f. own zs = a @ [Increment ''Building function image'', CallBuild f] \<and>
                r \<noteq> None \<and> (\<forall>e'. builder c f = Some e' \<longrightarrow> r = Some e')) \<or>
           (\<exists>f. own zs = a @ [Increment ''Building function image'', CallBuild f,
                              Increment (built_message p (Image f))] \<and>
                builder c f = None \<and> r = None))"
proof -
  let ?B1 = "Increment ''Building function image''"
  define w2 where
    "w2 = (if \<not> verbose c then printBuildActivity (emit p ?B1 w1) else emit p ?B1 w1)"
  have nB: "\<not> is_heartbeat ?B1" by (simp add: beat_messages_def)
  from emit_ext [OF nB assms(2,3)] obtain x2 where
    x2: "events (emit p ?B1 w1) = events w @ x2" "own x2 = a @ [?B1]" by blast
  have e2: "events w2 = events w @ x2"
    by (simp add: w2_def printBuildActivity_events x2(1))
  have unf: "Build_op c p w1 path =
    (case NewFunction p (fs w2) path of
       Inl err \<Rightarrow> (w2, Some err)
     | Inr f \<Rightarrow>
    (case DerivedImage p (fs w2) path (registry c) of
       Inl err \<Rightarrow> (w2, Some err)
     | Inr img \<Rightarrow>
    (case builder c (f\<lparr>Image := img\<rparr>) of
       Some err \<Rightarrow> (emit p (CallBuild (f\<lparr>Image := img\<rparr>)) w2, Some err)
     | None \<Rightarrow>
    (case on_fs (\<lambda>s. Write p s (f\<lparr>Image := img\<rparr>)) (emit p (CallBuild (f\<lparr>Image := img\<rparr>)) w2) of
       (w, Some err) \<Rightarrow> (w, Some err)
     | (w, None) \<Rightarrow>
    (case on_fs (\<lambda>s. updateBuildStamp p s (f\<lparr>Image := img\<rparr>)) w of
       (w, Some err) \<Rightarrow> (w, Some err)
     | (w, None) \<Rightarrow>
         (emit p (Increment (built_message p (Image (f\<lparr>Image := img\<rparr>)))) w, None))))))"
    by (unfold Build_op_def Let_def w2_def) (rule refl)
  show ?thesis
  proof (cases "NewFunction p (fs w2) path")
    case (Inl e)
    with assms(1) unf have "w' = w2 \<and> r \<noteq> None" by auto
    with e2 x2(2) show ?thesis by blast
  next
    case (Inr f0)
    note nf = this
    show ?thesis
    proof (cases "DerivedImage p (fs w2) path (registry c)")
      case (Inl e)
      with nf assms(1) unf have "w' = w2 \<and> r \<noteq> None" by auto
      with e2 x2(2) show ?thesis by blast
    next
      case (Inr img)
      note di = this
      let ?f = "f0\<lparr>Image := img\<rparr>"
      have nC: "\<not> is_heartbeat (CallBuild ?f)" by simp
      from emit_ext [OF nC e2 x2(2)] obtain x3 where
        x3: "events (emit p (CallBuild ?f) w2) = events w @ x3"
            "own x3 = (a @ [?B1]) @ [CallBuild ?f]" by blast
      then have o3: "own x3 = a @ [?B1, CallBuild ?f]" by simp
      show ?thesis
      proof (cases "builder c ?f")
        case (Some e)
        with nf di assms(1) unf have "w' = emit p (CallBuild ?f) w2 \<and> r = Some e" by auto
        with x3(1) o3 Some show ?thesis by auto
      next
        case None
        note bd = this
        obtain w4 r4 where wr: "on_fs (\<lambda>s. Write p s ?f) (emit p (CallBuild ?f) w2) = (w4, r4)"
          by (cases "on_fs (\<lambda>s. Write p s ?f) (emit p (CallBuild ?f) w2)")
        from on_fs_events [OF wr] x3(1) have e4: "events w4 = events w @ x3" by simp
        show ?thesis
        proof (cases r4)
          case (Some e)
          with nf di bd wr assms(1) unf have "w' = w4 \<and> r \<noteq> None" by auto
          with e4 o3 bd show ?thesis by auto
        next
          case None
          note r4 = this
          obtain w5 r5 where ub: "on_fs (\<lambda>s. updateBuildStamp p s ?f) w4 = (w5, r5)"
            by (cases "on_fs (\<lambda>s. updateBuildStamp p s ?f) w4")
          from on_fs_events [OF ub] e4 have e5: "events w5 = events w @ x3" by simp
          show ?thesis
          proof (cases r5)
            case (Some e)
            with nf di bd wr r4 ub assms(1) unf have "w' = w5 \<and> r \<noteq> None" by auto
            with e5 o3 bd show ?thesis by auto
          next
            case None
            have nM: "\<not> is_heartbeat (Increment (built_message p img))"
              by (simp add: built_message_def beat_messages_def)
            from emit_ext [OF nM e5 o3] obtain x6 where
              x6: "events (emit p (Increment (built_message p img)) w5) = events w @ x6"
                  "own x6 = (a @ [?B1, CallBuild ?f]) @ [Increment (built_message p img)]"
              by blast
            from nf di bd wr r4 ub None assms(1) unf
            have "w' = emit p (Increment (built_message p img)) w5 \<and> r = None" by auto
            with x6 bd have "events w' = events w @ x6 \<and>
               own x6 = a @ [?B1, CallBuild ?f, Increment (built_message p (Image ?f))] \<and>
               builder c ?f = None \<and> r = None" by simp
            then show ?thesis by blast
          qed
        qed
      qed
    qed
  qed
qed

lemma Push_res:
  assumes "Push c p w1 path = (w', r)" and "events w1 = events w @ xs" and "own xs = a"
  shows "\<exists>zs. events w' = events w @ zs \<and>
          ((own zs = a \<and> r \<noteq> None) \<or>
           (\<exists>f. own zs = a @ [CallPush f] \<and>
                (\<forall>e'. snd (pusher c f) = Some e' \<longrightarrow> r = Some e') \<and>
                (r = None \<longrightarrow> snd (pusher c f) = None)))"
proof (cases "NewFunction p (fs w1) path")
  case (Inl e)
  with assms(1) have "w' = w1 \<and> r \<noteq> None" by (auto simp: Push_def)
  with assms(2,3) show ?thesis by blast
next
  case (Inr f)
  show ?thesis
  proof (cases "HasImage f")
    case False
    with Inr assms(1) have "w' = w1 \<and> r \<noteq> None" by (auto simp: Push_def)
    with assms(2,3) show ?thesis by blast
  next
    case True
    have nC: "\<not> is_heartbeat (CallPush f)" by simp
    from emit_ext [OF nC assms(2,3)] obtain x2 where
      x2: "events (emit p (CallPush f) w1) = events w @ x2" "own x2 = a @ [CallPush f]"
      by blast
    obtain d r2 where ps: "pusher c f = (d, r2)" by (cases "pusher c f")
    show ?thesis
    proof (cases r2)
      case (Some e)
      with ps True Inr assms(1) have "w' = emit p (CallPush f) w1 \<and> r = Some e"
        by (auto simp: Push_def Let_def)
      with x2 ps Some have "events w' = events w @ x2 \<and> own x2 = a @ [CallPush f] \<and>
          (\<forall>e'. snd (pusher c f) = Some e' \<longrightarrow> r = Some e') \<and>
          (r = None \<longrightarrow> snd (pusher c f) = None)" by simp
      then show ?thesis by blast
    next
      case None
      with ps True Inr assms(1)
      have "on_fs (\<lambda>s. Write p s (f\<lparr>ImageDigest := d\<rparr>)) (emit p (CallPush f) w1) = (w', r)"
        by (auto simp: Push_def Let_def)
      from on_fs_events [OF this] x2 ps None
      have "events w' = events w @ x2 \<and> own x2 = a @ [CallPush f] \<and>
          (\<forall>e'. snd (pusher c f) = Some e' \<longrightarrow> r = Some e') \<and>
          (r = None \<longrightarrow> snd (pusher c f) = None)" by simp
      then show ?thesis by blast
    qed
  qed
qed

lemma Deploy_res:
  assumes "Deploy c p w1 path = (w', r)" and "events w1 = events w @ xs" and "own xs = a"
  shows "\<exists>zs. events w' = events w @ zs \<and>
          ((own zs = a \<and> r \<noteq> None) \<or>
           (\<exists>f. own zs = a @ [Increment ''Deploying function to the cluster'', CallDeploy f]
                          @ deployment_report (fst (deployer c f)) \<and>
                snd (deployer c f) = r))"
proof (cases "NewFunction p (fs w1) path")
  case (Inl e)
  with assms(1) have "w' = w1 \<and> r \<noteq> None" by (auto simp: Deploy_def)
  with assms(2,3) show ?thesis by blast
next
  case (Inr f)
  show ?thesis
  proof (cases "HasImage f")
    case False
    with Inr assms(1) have "w' = w1 \<and> r \<noteq> None" by (auto simp: Deploy_def)
    with assms(2,3) show ?thesis by blast
  next
    case True
    let ?D1 = "Increment ''Deploying function to the cluster''"
    let ?w3 = "emit p (CallDeploy f) (emit p ?D1 w1)"
    have nD: "\<not> is_heartbeat ?D1" by (simp add: beat_messages_def)
    have nC: "\<not> is_heartbeat (CallDeploy f)" by simp
    from emit_ext [OF nD assms(2,3)] obtain x2 where
      x2: "events (emit p ?D1 w1) = events w @ x2" "own x2 = a @ [?D1]" by blast
    from emit_ext [OF nC x2] obtain x3 where
      x3: "events ?w3 = events w @ x3" "own x3 = (a @ [?D1]) @ [CallDeploy f]" by blast
    obtain res err where d: "deployer c f = (res, err)" by (cases "deployer c f")
    have "\<exists>zs. events w' = events w @ zs \<and>
            own zs = a @ [?D1, CallDeploy f] @ deployment_report res"
    proof (cases "Status res = Deployed")
      case True
      let ?R = "Increment (''Function deployed at URL: '' @ URL res)"
      have nR: "\<not> is_heartbeat ?R" by (simp add: beat_messages_def)
      from emit_ext [OF nR x3] obtain x4 where
        x4: "events (emit p ?R ?w3) = events w @ x4"
            "own x4 = ((a @ [?D1]) @ [CallDeploy f]) @ [?R]" by blast
      from True d \<open>HasImage f\<close> Inr assms(1) have "w' = emit p ?R ?w3"
        by (auto simp: Deploy_def Let_def)
      with x4 True have "events w' = events w @ x4 \<and>
            own x4 = a @ [?D1, CallDeploy f] @ deployment_report res"
        by (simp add: deployment_report_def)
      then show ?thesis by blast
    next
      case False
      note nd = this
      show ?thesis
      proof (cases "Status res = Updated")
        case True
        let ?R = "Increment (''Function updated at URL: '' @ URL res)"
        have nR: "\<not> is_heartbeat ?R" by (simp add: beat_messages_def)
        from emit_ext [OF nR x3] obtain x4 where
          x4: "events (emit p ?R ?w3) = events w @ x4"
              "own x4 = ((a @ [?D1]) @ [CallDeploy f]) @ [?R]" by blast
        from True nd d \<open>HasImage f\<close> Inr assms(1) have "w' = emit p ?R ?w3"
          by (auto simp: Deploy_def Let_def)
        with x4 True nd have "events w' = events w @ x4 \<and>
              own x4 = a @ [?D1, CallDeploy f] @ deployment_report res"
          by (simp add: deployment_report_def)
        then show ?thesis by blast
      next
        case False
        from False nd d \<open>HasImage f\<close> Inr assms(1) have "w' = ?w3"
          by (auto simp: Deploy_def Let_def)
        with x3 False nd have "events w' = events w @ x3 \<and>
              own x3 = a @ [?D1, CallDeploy f] @ deployment_report res"
          by (simp add: deployment_report_def)
        then show ?thesis by blast
      qed
    qed
    moreover from d \<open>HasImage f\<close> Inr assms(1) have "r = err"
      by (auto simp: Deploy_def Let_def)
    ultimately show ?thesis using d by auto
  qed
qed

lemma Route_res:
  assumes "Route c p w1 path = (w', r)" and "events w1 = events w @ xs" and "own xs = a"
  shows "\<exists>zs. events w' = events w @ zs \<and>
          ((own zs = a \<and> r \<noteq> None) \<or>
           (\<exists>f. own zs = a @ [CallProvide f] \<and> dnsProvider c f = r))"
proof (cases "NewFunction p (fs w1) path")
  case (Inl e)
  with assms(1) have "w' = w1 \<and> r \<noteq> None" by (auto simp: Route_def)
  with assms(2,3) show ?thesis by blast
next
  case (Inr f)
  have nC: "\<not> is_heartbeat (CallProvide f)" by simp
  from emit_ext [OF nC assms(2,3)] obtain x2 where
    x2: "events (emit p (CallProvide f) w1) = events w @ x2" "own x2 = a @ [CallProvide f]"
    by blast
  from Inr assms(1) have "w' = emit p (CallProvide f) w1 \<and> dnsProvider c f = r"
    by (auto simp: Route_def)
  with x2 show ?thesis by blast
qed

lemma calls_append: "calls (xs @ ys) = calls xs @ calls ys"
  by (induction xs) (auto split: option.splits)

lemma call_events_append: "call_events (xs @ ys) = call_events xs @ call_events ys"
  by (simp add: call_events_def)

lemma call_events_Cons:
  "call_events (e # es) = (if called e \<noteq> None then e # call_events es else call_events es)"
  by (simp add: call_events_def)

lemma call_events_Nil: "call_events [] = []"
  by (simp add: call_events_def)

lemma report_calls: "calls (deployment_report r) = []"
  by (simp add: deployment_report_def)

lemma report_call_events: "call_events (deployment_report r) = []"
  by (simp add: deployment_report_def call_events_def)

lemma report_announce: "filter (\<lambda>e. e \<in> set New_announcements) (deployment_report r) = []"
  by (simp add: deployment_report_def New_announcements_def)

lemma report_announce_unfolded:
  "filter (\<lambda>e. e = Increment ''Building container image'' \<or>
              e = Increment ''Pushing container image to registry'' \<or>
              e = Increment ''Deploying Function to cluster'' \<or>
              e = Increment ''Creating route to Function'')
     (deployment_report r) = []"
  by (simp add: deployment_report_def)

lemma report_Complete: "Complete m \<notin> set (deployment_report r)"
  by (simp add: deployment_report_def)

lemma built_announce:
  "built_message p i \<noteq> ''Building container image''"
  "built_message p i \<noteq> ''Pushing container image to registry''"
  "built_message p i \<noteq> ''Deploying Function to cluster''"
  "built_message p i \<noteq> ''Creating route to Function''"
  by (simp_all add: built_message_def)

lemmas leaf_simps = calls_append call_events_append call_events_Cons call_events_Nil
  report_calls report_call_events report_announce report_announce_unfolded report_Complete built_announce
  New_announcements_def

text \<open>
  C7.  \<open>New\<close> runs \<open>Create\<close>, loads the Function, and then runs \<open>Build\<close>,
  \<open>Push\<close>, \<open>Deploy\<close> and \<open>Route\<close> in that order: the collaborators called
  are a prefix of builder, pusher, deployer, DNS provider; every call but the last
  returned no error, and an error returned to the last call is what \<open>New\<close> returns,
  no later stage having been entered; when \<open>Create\<close> fails \<open>New\<close> returns its
  error having reported nothing but the total.  On success all four collaborators were
  called, the record holds the four increments that \<open>New\<close> reports, one before each
  of the four stages, each once and in that order, and the completion signal is the last
  report the client makes.  No completion signal is given when \<open>New\<close> fails.  All
  this holds whatever increments the build heartbeat adds to the record and whenever
  it adds them.
\<close>

theorem New_stages:
  "\<exists>new. events (fst (New c p w cfg)) = events w @ new \<and>
     prefix (calls new) [Builder, Pusher, Deployer, DNSProvider] \<and>
     (\<forall>e \<in> set (butlast (call_events new)). call_result c e = None) \<and>
     (\<forall>err. call_events new \<noteq> [] \<and> call_result c (last (call_events new)) = Some err \<longrightarrow>
        snd (New c p w cfg) = Some err) \<and>
     (snd (New c p w cfg) = None \<longrightarrow>
        calls new = [Builder, Pusher, Deployer, DNSProvider] \<and>
        filter (\<lambda>e. e \<in> set New_announcements) new = New_announcements \<and>
        last (own new) = Complete ''Done'') \<and>
     (snd (New c p w cfg) \<noteq> None \<longrightarrow> Complete ''Done'' \<notin> set new) \<and>
     (snd (Create p (fs w) cfg) \<noteq> None \<longrightarrow>
        snd (New c p w cfg) = snd (Create p (fs w) cfg) \<and> own new = [SetTotal 3])"
proof -
  let ?A1 = "Increment ''Building container image''"
  let ?A2 = "Increment ''Pushing container image to registry''"
  let ?A3 = "Increment ''Deploying Function to cluster''"
  let ?A4 = "Increment ''Creating route to Function''"
  let ?B1 = "Increment ''Building function image''"
  let ?D1 = "Increment ''Deploying function to the cluster''"
  have nh: "\<not> is_heartbeat (SetTotal 3)" "\<not> is_heartbeat ?A1" "\<not> is_heartbeat ?A2"
    "\<not> is_heartbeat ?A3" "\<not> is_heartbeat ?A4" "\<not> is_heartbeat (Complete ''Done'')"
    by (simp_all add: beat_messages_def)
  obtain s1 r1 where cs: "Create p (fs w) cfg = (s1, r1)"
    by (cases "Create p (fs w) cfg")
  define w1 where "w1 = (emit p (SetTotal 3) w)\<lparr>fs := s1\<rparr>"
  from cs have c: "on_fs (\<lambda>s. Create p s cfg) (emit p (SetTotal 3) w) = (w1, r1)"
    by (simp add: on_fs_def emit_fs w1_def)
  have b0: "events w = events w @ []" "own [] = []" by (simp_all add: own_def)
  from emit_ext [OF nh(1) b0] obtain x1 where
    "events (emit p (SetTotal 3) w) = events w @ x1" "own x1 = [] @ [SetTotal 3]" by blast
  then have e1: "events w1 = events w @ x1" and o1: "own x1 = [SetTotal 3]"
    by (simp_all add: w1_def)
  show ?thesis
  proof (cases r1)
    case (Some e)
    with c have n: "New c p w cfg = (w1, Some e)" by (simp add: New_def Let_def)
    show ?thesis
      by (rule exI [of _ x1]) (use n e1 o1 via_own [OF o1] cs Some in \<open>simp add: leaf_simps\<close>)
  next
    case None
    note r1 = this
    show ?thesis
    proof (cases "NewFunction p (fs w1) (Root cfg)")
      case (Inl e)
      with c r1 have n: "New c p w cfg = (w1, Some e)" by (simp add: New_def Let_def)
      show ?thesis
        by (rule exI [of _ x1]) (use n e1 o1 via_own [OF o1] cs r1 in \<open>simp add: leaf_simps\<close>)
    next
      case (Inr f)
      from emit_ext [OF nh(2) e1 o1] obtain y1 where
        y1: "events (emit p ?A1 w1) = events w @ y1" "own y1 = [SetTotal 3] @ [?A1]" by blast
      obtain w2 r2 where b: "Build_op c p (emit p ?A1 w1) (Root f) = (w2, r2)"
        by (cases "Build_op c p (emit p ?A1 w1) (Root f)")
      from Build_op_res [OF b y1] obtain x2 where e2: "events w2 = events w @ x2" and
        d2: "(own x2 = [SetTotal 3, ?A1, ?B1] \<and> r2 \<noteq> None) \<or>
             (\<exists>fb. own x2 = [SetTotal 3, ?A1, ?B1, CallBuild fb] \<and> r2 \<noteq> None \<and>
                   (\<forall>e'. builder c fb = Some e' \<longrightarrow> r2 = Some e')) \<or>
             (\<exists>fb. own x2 = [SetTotal 3, ?A1, ?B1, CallBuild fb,
                               Increment (built_message p (Image fb))] \<and>
                   builder c fb = None \<and> r2 = None)"
        by auto
      from d2 consider
          (early) "own x2 = [SetTotal 3, ?A1, ?B1]" "r2 \<noteq> None"
        | (failed) fb where "own x2 = [SetTotal 3, ?A1, ?B1, CallBuild fb]" "r2 \<noteq> None"
                   "\<forall>e'. builder c fb = Some e' \<longrightarrow> r2 = Some e'"
        | (built) fb where "own x2 = [SetTotal 3, ?A1, ?B1, CallBuild fb,
                               Increment (built_message p (Image fb))]"
                   "builder c fb = None" "r2 = None"
        by blast
      then show ?thesis
      proof cases
        case early
        then obtain e where r2: "r2 = Some e" by auto
        with c r1 Inr b have n: "New c p w cfg = (w2, Some e)" by (simp add: New_def Let_def)
        show ?thesis
          by (rule exI [of _ x2])
             (use n e2 early(1) via_own [OF early(1)] cs r1 in \<open>simp add: leaf_simps\<close>)
      next
        case failed
        then obtain e where r2: "r2 = Some e" by auto
        with c r1 Inr b have n: "New c p w cfg = (w2, Some e)" by (simp add: New_def Let_def)
        show ?thesis
          by (rule exI [of _ x2])
             (use n e2 failed(1,3) r2 via_own [OF failed(1)] cs r1 in \<open>simp add: leaf_simps\<close>)
      next
        case built
        note o2 = built(1) and fb = built(2) and r2 = built(3)
        let ?E2 = "[SetTotal 3, ?A1, ?B1, CallBuild fb, Increment (built_message p (Image fb))]"
        from emit_ext [OF nh(3) e2 o2] obtain y2 where
          y2: "events (emit p ?A2 w2) = events w @ y2" "own y2 = ?E2 @ [?A2]" by blast
        obtain w3 r3 where ps: "Push c p (emit p ?A2 w2) (Root f) = (w3, r3)"
          by (cases "Push c p (emit p ?A2 w2) (Root f)")
        from Push_res [OF ps y2] obtain x3 where e3: "events w3 = events w @ x3" and
          d3: "(own x3 = ?E2 @ [?A2] \<and> r3 \<noteq> None) \<or>
               (\<exists>fp. own x3 = ?E2 @ [?A2, CallPush fp] \<and>
                   (\<forall>e'. snd (pusher c fp) = Some e' \<longrightarrow> r3 = Some e') \<and>
                   (r3 = None \<longrightarrow> snd (pusher c fp) = None))"
          by auto
        from d3 consider
            (early) "own x3 = ?E2 @ [?A2]" "r3 \<noteq> None"
          | (called) fp where "own x3 = ?E2 @ [?A2, CallPush fp]"
                   "\<forall>e'. snd (pusher c fp) = Some e' \<longrightarrow> r3 = Some e'"
                   "r3 = None \<longrightarrow> snd (pusher c fp) = None"
          by blast
        then show ?thesis
        proof cases
          case early
          then obtain e where r3: "r3 = Some e" by auto
          with c r1 Inr b r2 ps have n: "New c p w cfg = (w3, Some e)"
            by (simp add: New_def Let_def)
          show ?thesis
            by (rule exI [of _ x3])
               (use n e3 early(1) via_own [OF early(1)] cs r1 fb in \<open>simp add: leaf_simps\<close>)
        next
          case called
          note o3 = called(1)
          let ?E3 = "?E2 @ [?A2, CallPush fp]"
          show ?thesis
          proof (cases r3)
            case (Some e)
            with c r1 Inr b r2 ps have n: "New c p w cfg = (w3, Some e)"
              by (simp add: New_def Let_def)
            show ?thesis
              by (rule exI [of _ x3])
                 (use n e3 o3 called(2) Some via_own [OF o3] cs r1 fb in
                    \<open>simp add: leaf_simps\<close>)
          next
            case None
            note r3 = this
            with called(3) have fp: "snd (pusher c fp) = None" by simp
            from emit_ext [OF nh(4) e3 o3] obtain y3 where
              y3: "events (emit p ?A3 w3) = events w @ y3" "own y3 = ?E3 @ [?A3]" by blast
            obtain w4 r4 where dp: "Deploy c p (emit p ?A3 w3) (Root f) = (w4, r4)"
              by (cases "Deploy c p (emit p ?A3 w3) (Root f)")
            from Deploy_res [OF dp y3] obtain x4 where e4: "events w4 = events w @ x4" and
              d4: "(own x4 = ?E3 @ [?A3] \<and> r4 \<noteq> None) \<or>
                   (\<exists>fd. own x4 = ?E3 @ [?A3, ?D1, CallDeploy fd]
                              @ deployment_report (fst (deployer c fd)) \<and>
                         snd (deployer c fd) = r4)"
              by auto
            from d4 consider
                (early) "own x4 = ?E3 @ [?A3]" "r4 \<noteq> None"
              | (called4) fd where "own x4 = ?E3 @ [?A3, ?D1, CallDeploy fd]
                              @ deployment_report (fst (deployer c fd))"
                         "snd (deployer c fd) = r4"
              by blast
            then show ?thesis
            proof cases
              case early
              then obtain e where r4: "r4 = Some e" by auto
              with c r1 Inr b r2 ps r3 dp have n: "New c p w cfg = (w4, Some e)"
                by (simp add: New_def Let_def)
              show ?thesis
                by (rule exI [of _ x4])
                   (use n e4 early(1) via_own [OF early(1)] cs r1 fb fp in
                      \<open>simp add: leaf_simps\<close>)
            next
              case called4
              note o4 = called4(1)
              let ?E4 = "?E3 @ [?A3, ?D1, CallDeploy fd] @ deployment_report (fst (deployer c fd))"
              show ?thesis
              proof (cases r4)
                case (Some e)
                with c r1 Inr b r2 ps r3 dp have n: "New c p w cfg = (w4, Some e)"
                  by (simp add: New_def Let_def)
                show ?thesis
                  by (rule exI [of _ x4])
                     (use n e4 o4 called4(2) Some via_own [OF o4] cs r1 fb fp in
                        \<open>simp add: leaf_simps\<close>)
              next
                case None
                note r4 = this
                from emit_ext [OF nh(5) e4 o4] obtain y4 where
                  y4: "events (emit p ?A4 w4) = events w @ y4" "own y4 = ?E4 @ [?A4]"
                  by blast
                obtain w5 r5 where rt: "Route c p (emit p ?A4 w4) (Root f) = (w5, r5)"
                  by (cases "Route c p (emit p ?A4 w4) (Root f)")
                from Route_res [OF rt y4] obtain x5 where e5: "events w5 = events w @ x5" and
                  d5: "(own x5 = ?E4 @ [?A4] \<and> r5 \<noteq> None) \<or>
                       (\<exists>fr. own x5 = ?E4 @ [?A4, CallProvide fr] \<and> dnsProvider c fr = r5)"
                  by auto
                from d5 consider
                    (early5) "own x5 = ?E4 @ [?A4]" "r5 \<noteq> None"
                  | (called5) fr where "own x5 = ?E4 @ [?A4, CallProvide fr]"
                      "dnsProvider c fr = r5"
                  by blast
                then show ?thesis
                proof cases
                  case early5
                  then obtain e where r5: "r5 = Some e" by auto
                  with c r1 Inr b r2 ps r3 dp r4 rt have n: "New c p w cfg = (w5, Some e)"
                    by (simp add: New_def Let_def)
                  show ?thesis
                    by (rule exI [of _ x5])
                       (use n e5 early5(1) via_own [OF early5(1)] called4(2) r4 cs r1 fb fp in
                          \<open>simp add: leaf_simps\<close>)
                next
                  case called5
                  note o5 = called5(1)
                  show ?thesis
                  proof (cases r5)
                    case (Some e)
                    with c r1 Inr b r2 ps r3 dp r4 rt have n: "New c p w cfg = (w5, Some e)"
                      by (simp add: New_def Let_def)
                    show ?thesis
                      by (rule exI [of _ x5])
                         (use n e5 o5 called5(2) Some via_own [OF o5] called4(2) r4 cs r1 fb fp in
                            \<open>simp add: leaf_simps\<close>)
                  next
                    case None
                    with c r1 Inr b r2 ps r3 dp r4 rt
                    have n: "New c p w cfg = (emit p (Complete ''Done'') w5, None)"
                      by (simp add: New_def Let_def)
                    from emit_ext [OF nh(6) e5 o5] obtain x6 where
                      e6: "events (emit p (Complete ''Done'') w5) = events w @ x6" and
                      o6: "own x6 = ?E4 @ [?A4, CallProvide fr, Complete ''Done'']"
                      by auto
                    show ?thesis
                      by (rule exI [of _ x6])
                         (use n e6 o6 called5(2) None via_own [OF o6] called4(2) r4 cs r1 fb fp in
                            \<open>simp add: leaf_simps\<close>)
                  qed
                qed
              qed
            qed
          qed
        qed
      qed
    qed
  qed
qed

lemmas sample_run_defs = New_def Create_def Build_op_def Push_def Deploy_def Route_def
  updateBuildStamp_def ensureRuntimeDir_def sample_defs sample_fingerprint built_message_def

lemmas record_defs = emit_def beat_def log_event_def printBuildActivity_def beat_messages_def

theorem New_stages_witness:
  "snd (New sample_client sample_platform fresh_world sample_cfg) = None \<and>
   calls (events (fst (New sample_client sample_platform fresh_world sample_cfg))) =
     [Builder, Pusher, Deployer, DNSProvider] \<and>
   filter (\<lambda>e. e \<in> set New_announcements)
     (events (fst (New sample_client sample_platform fresh_world sample_cfg))) =
     New_announcements \<and>
   last (own (events (fst (New sample_client sample_platform fresh_world sample_cfg)))) =
     Complete ''Done'' \<and>
   Increment ''Yes, still building''
     \<in> set (events (fst (New sample_client sample_platform fresh_world sample_cfg)))"
proof -
  have ok: "snd (New sample_client sample_platform fresh_world sample_cfg) = None"
    by (simp add: sample_run_defs emit_fs printBuildActivity_fs)
  have e0: "events fresh_world = []"
    by (simp add: fresh_world_def)
  have hb: "Increment ''Yes, still building''
     \<in> set (events (fst (New sample_client sample_platform fresh_world sample_cfg)))"
    by (simp add: sample_run_defs record_defs)
  from New_stages [of sample_client sample_platform fresh_world sample_cfg] ok e0 hb
  show ?thesis by auto
qed


end
